theory Spec2Isabelle
  imports Complex_Main "HOL-Library.Multiset" "HOL-Library.Log_Nat"
begin

section \<open>Data model (app/types/analysis.ts)\<close>

text \<open>
  JavaScript strings are sequences of UTF-16 code units and \<open>length\<close> counts code units.
  The model uses HOL strings (lists of characters); one list element stands for one code
  unit.  Numbers that are used as character offsets or indices are integers, added as
  the program adds them (see the section on numbers); scores and durations are real
  numbers.

  The kinds of error are the seven of \<open>GrammarError.type\<close> and \<open>ErrorType\<close>.  (The
  repository also holds an earlier copy of this file, which has only the first three
  kinds and no \<open>Transformer-AI\<close> mode.)  The field \<open>end\<close> of a position is written
  \<open>end'\<close>; the fields of \<open>SentenceAnalysis\<close> that share a name with a field of another
  interface carry the prefix \<open>sa_\<close>, those of the two requests the prefixes \<open>req_\<close> and
  \<open>file_\<close>.
\<close>

datatype ErrorType = Spelling | Grammar | Punctuation | Ngram | Semantic | Structure | Ai

text \<open>The kinds of the earlier copy, and each of them as a kind of the present file.\<close>

datatype EarlierErrorType = EarlierSpelling | EarlierGrammar | EarlierPunctuation

fun as_error_type :: "EarlierErrorType \<Rightarrow> ErrorType" where
  "as_error_type EarlierSpelling = Spelling"
| "as_error_type EarlierGrammar = Grammar"
| "as_error_type EarlierPunctuation = Punctuation"

record Position =
  start :: int
  end' :: int

record GrammarError =
  type :: ErrorType
  position :: Position
  original :: string
  suggestion :: string
  explanation :: string
  sentenceIndex :: int

text \<open>
  Objects and arrays are reached through references.  The store keeps every
  \<open>GrammarError\<close> object and every array of such objects; a reference is an index into
  the store, allocation appends, so a fresh reference never aliases an existing one.
\<close>

type_synonym ref = nat

record store =
  objs :: "GrammarError list"
  arrs :: "ref list list"

record SentenceAnalysis =
  sa_index :: int
  sa_original :: string
  sa_corrected :: string
  sa_errors :: ref
  fluencyScore :: real

datatype NgramMode = Bigram | Trigram | FourGram | TransformerAI

datatype RequestNgram = ReqBigram | ReqTrigram | Req4gram

datatype ModelType = ModelNgram | ModelTransformer

record AnalysisResult =
  originalText :: string
  correctedText :: string
  errors :: ref
  confidenceScore :: real
  sentences :: "SentenceAnalysis list"
  ngramMode :: NgramMode
  processingTimeMs :: real

record CheckTextRequest =
  req_text :: string
  ngram :: RequestNgram
  model_type :: "ModelType option"

section \<open>JavaScript string operations\<close>

text \<open>
  \<open>String.prototype.slice(start, end)\<close>: a negative index counts from the end of the
  string, every index is clamped to \<open>[0, length]\<close>, and the result is empty when
  the clamped start is not before the clamped end.  \<open>slice(start)\<close> runs to the end.
\<close>

definition slice_index :: "int \<Rightarrow> int \<Rightarrow> int" where
  "slice_index len i = (if i < 0 then max (len + i) 0 else min i len)"

definition slice :: "string \<Rightarrow> int \<Rightarrow> int \<Rightarrow> string" where
  "slice s a b =
     (let len = int (length s); lo = slice_index len a; hi = slice_index len b
      in if lo \<ge> hi then [] else take (nat (hi - lo)) (drop (nat lo) s))"

definition slice_from :: "string \<Rightarrow> int \<Rightarrow> string" where
  "slice_from s a =
     (let len = int (length s); lo = slice_index len a
      in if lo \<ge> len then [] else take (nat (len - lo)) (drop (nat lo) s))"

section \<open>JavaScript numbers\<close>

text \<open>
  A number is an IEEE double.  The numbers that the program adds are integers: a
  position, and the difference of two string lengths.  The sum of two doubles is the exact
  sum rounded to the nearest double, ties to the even significand.  Every integer up to
  \<open>2^53\<close> in magnitude is a double; a larger integer of \<open>53 + e\<close> bits is rounded to a
  multiple of \<open>2^e\<close>.  (A position read from JSON is finite and the offset is below
  \<open>2^53\<close> in magnitude, so the sum never overflows.)  A difference of two string lengths
  is exact, and the sign of a rounded difference of two integers is the sign of the
  difference, so that comparisons and the sort are those of the integers.
\<close>

definition round_to_double :: "int \<Rightarrow> int" where
  "round_to_double n =
     (if \<bar>n\<bar> \<le> 9007199254740992 then n
      else
        let m = \<bar>n\<bar>;
            e = nat (bitlen m - 53);
            q = m div 2 ^ e;
            r = m mod 2 ^ e;
            h = 2 ^ (e - 1);
            q' = (if h < r \<or> (r = h \<and> odd q) then q + 1 else q)
        in sgn n * (q' * 2 ^ e))"

definition js_add :: "int \<Rightarrow> int \<Rightarrow> int" where
  "js_add a b = round_to_double (a + b)"

section \<open>The store\<close>

definition obj_at :: "store \<Rightarrow> ref \<Rightarrow> GrammarError" where
  "obj_at s r = objs s ! r"

definition arr_at :: "store \<Rightarrow> ref \<Rightarrow> ref list" where
  "arr_at s a = arrs s ! a"

definition new_obj :: "GrammarError \<Rightarrow> store \<Rightarrow> ref \<times> store" where
  "new_obj e s = (length (objs s), s\<lparr>objs := objs s @ [e]\<rparr>)"

definition new_arr :: "ref list \<Rightarrow> store \<Rightarrow> ref \<times> store" where
  "new_arr rs s = (length (arrs s), s\<lparr>arrs := arrs s @ [rs]\<rparr>)"

text \<open>
  A store is well formed when every array element refers to an allocated object: the
  language has no dangling references.
\<close>

definition wf_store :: "store \<Rightarrow> bool" where
  "wf_store s = list_all (list_all (\<lambda>r. r < length (objs s))) (arrs s)"

section \<open>Result page (app/result/page.tsx)\<close>

text \<open>The state of the page; \<open>displayErrors\<close> holds a reference to an array of errors.\<close>

record ResultPage =
  result :: "AnalysisResult option"
  currentSentenceIndex :: int
  displayText :: string
  displayErrors :: ref

text \<open>
  Until the result is loaded the page renders the loading screen; it displays the text
  and the errors, and offers the fixes, only once the result is there.
\<close>

definition shows_results :: "ResultPage \<Rightarrow> bool" where
  "shows_results p = (result p \<noteq> None)"

text \<open>
  \<open>displayErrors.filter((e) => e !== error)\<close> compares references and returns a new array.
\<close>

definition array_filter_ne :: "ref \<Rightarrow> ref \<Rightarrow> store \<Rightarrow> ref \<times> store" where
  "array_filter_ne error a s = new_arr (filter (\<lambda>e. e \<noteq> error) (arr_at s a)) s"

text \<open>
  The callback of \<open>.map\<close>: an error that starts after the fixed one is replaced by a fresh
  object \<open>{...e, position: {start: e.position.start + offset, end: e.position.end + offset}}\<close>,
  every other error is returned as it is (the same reference).
\<close>

definition shift_one :: "ref \<Rightarrow> int \<Rightarrow> ref \<Rightarrow> store \<Rightarrow> ref \<times> store" where
  "shift_one error offset e s =
     (if start (position (obj_at s e)) > start (position (obj_at s error))
      then new_obj ((obj_at s e)\<lparr>position :=
             \<lparr>start = js_add (start (position (obj_at s e))) offset,
              end' = js_add (end' (position (obj_at s e))) offset\<rparr>\<rparr>) s
      else (e, s))"

fun shift_each :: "ref \<Rightarrow> int \<Rightarrow> ref list \<Rightarrow> store \<Rightarrow> ref list \<times> store" where
  "shift_each error offset [] s = ([], s)"
| "shift_each error offset (e # es) s =
     (let (e', s1) = shift_one error offset e s;
          (es', s2) = shift_each error offset es s1
      in (e' # es', s2))"

definition array_map_shift :: "ref \<Rightarrow> int \<Rightarrow> ref \<Rightarrow> store \<Rightarrow> ref \<times> store" where
  "array_map_shift error offset a s =
     (let (es', s1) = shift_each error offset (arr_at s a) s in new_arr es' s1)"

definition handleApplyFix :: "ref \<Rightarrow> store \<times> ResultPage \<Rightarrow> store \<times> ResultPage" where
  "handleApplyFix error = (\<lambda>(s, p).
     if result p = None then (s, p)
     else
       let before = slice (displayText p) 0 (start (position (obj_at s error)));
           after = slice_from (displayText p) (end' (position (obj_at s error)));
           newText = before @ suggestion (obj_at s error) @ after;
           offset = int (length (suggestion (obj_at s error)))
                    - int (length (original (obj_at s error)));
           (filtered, s1) = array_filter_ne error (displayErrors p) s;
           (updatedErrors, s2) = array_map_shift error offset filtered s1
       in (s2, p\<lparr>displayText := newText, displayErrors := updatedErrors\<rparr>))"

text \<open>\<open>setDisplayErrors([])\<close> stores a new, empty array.\<close>

definition handleApplyAllFixes :: "store \<times> ResultPage \<Rightarrow> store \<times> ResultPage" where
  "handleApplyAllFixes = (\<lambda>(s, p).
     case result p of
       None \<Rightarrow> (s, p)
     | Some res \<Rightarrow>
         let (empty, s1) = new_arr [] s
         in (s1, p\<lparr>displayText := correctedText res, displayErrors := empty\<rparr>))"

definition handleReset :: "store \<times> ResultPage \<Rightarrow> store \<times> ResultPage" where
  "handleReset = (\<lambda>(s, p).
     case result p of
       None \<Rightarrow> (s, p)
     | Some res \<Rightarrow> (s, p\<lparr>displayText := originalText res, displayErrors := errors res\<rparr>))"

text \<open>
  The mount effect stores the parsed result and shows its original text and its error
  array.
\<close>

definition on_mount :: "AnalysisResult \<Rightarrow> ResultPage \<Rightarrow> ResultPage" where
  "on_mount parsed p =
     p\<lparr>result := Some parsed, displayText := originalText parsed, displayErrors := errors parsed\<rparr>"

datatype action = ApplyFix ref | ApplyAllFixes

fun perform :: "action \<Rightarrow> store \<times> ResultPage \<Rightarrow> store \<times> ResultPage" where
  "perform (ApplyFix error) sp = handleApplyFix error sp"
| "perform ApplyAllFixes sp = handleApplyAllFixes sp"

fun perform_all :: "action list \<Rightarrow> store \<times> ResultPage \<Rightarrow> store \<times> ResultPage" where
  "perform_all [] sp = sp"
| "perform_all (a # as) sp = perform_all as (perform a sp)"

section \<open>Highlighted text (app/components/HighlightedText.tsx)\<close>

text \<open>
  The fields \<open>text\<close>, \<open>error\<close>, \<open>start\<close> and \<open>end\<close> of a segment carry the prefix \<open>seg_\<close>.
\<close>

record TextSegment =
  seg_text :: string
  seg_error :: "ref option"
  seg_start :: int
  seg_end :: int

text \<open>
  \<open>[...errors]\<close> allocates a copy of the array; \<open>.sort\<close> sorts that copy in place.  The
  comparator orders by \<open>position.start\<close> and the sort of the language is stable, which is
  what \<open>sort_key\<close> computes.
\<close>

definition array_copy :: "ref \<Rightarrow> store \<Rightarrow> ref \<times> store" where
  "array_copy a s = new_arr (arr_at s a) s"

definition array_sort_by_start :: "ref \<Rightarrow> store \<Rightarrow> store" where
  "array_sort_by_start a s =
     s\<lparr>arrs := (arrs s)[a := sort_key (\<lambda>r. start (position (obj_at s r))) (arr_at s a)]\<rparr>"

text \<open>The body of the \<open>for\<close> loop, on the pair (result, currentIndex).\<close>

definition segment_step ::
  "store \<Rightarrow> string \<Rightarrow> ref \<Rightarrow> TextSegment list \<times> int \<Rightarrow> TextSegment list \<times> int" where
  "segment_step s text error = (\<lambda>(res, currentIndex).
     let p = position (obj_at s error);
         res1 = (if start p > currentIndex
                 then res @ [\<lparr>seg_text = slice text currentIndex (start p), seg_error = None,
                               seg_start = currentIndex, seg_end = start p\<rparr>]
                 else res);
         res2 = res1 @ [\<lparr>seg_text = slice text (start p) (end' p), seg_error = Some error,
                           seg_start = start p, seg_end = end' p\<rparr>]
     in (res2, end' p))"

fun segment_loop ::
  "store \<Rightarrow> string \<Rightarrow> ref list \<Rightarrow> TextSegment list \<times> int \<Rightarrow> TextSegment list \<times> int" where
  "segment_loop s text [] acc = acc"
| "segment_loop s text (error # rest) acc = segment_loop s text rest (segment_step s text error acc)"

definition segments :: "string \<Rightarrow> ref \<Rightarrow> store \<Rightarrow> TextSegment list \<times> store" where
  "segments text errs s =
     (if length (arr_at s errs) = 0
      then ([\<lparr>seg_text = text, seg_error = None, seg_start = 0, seg_end = int (length text)\<rparr>], s)
      else
        let (sortedErrors, s1) = array_copy errs s;
            s2 = array_sort_by_start sortedErrors s1;
            (res, currentIndex) = segment_loop s2 text (arr_at s2 sortedErrors) ([], 0);
            res' = (if currentIndex < int (length text)
                    then res @ [\<lparr>seg_text = slice_from text currentIndex, seg_error = None,
                                  seg_start = currentIndex, seg_end = int (length text)\<rparr>]
                    else res)
        in (res', s2))"

section \<open>Text input (components/TextInput.tsx)\<close>

text \<open>
  Modelled from the spec: the constant \<open>MAX_TEXT_LENGTH\<close> is imported from
  \<open>app/lib/constants\<close>, which is not among the sources; the spec and the user manual give
  the limit as 10,000 characters.
\<close>

definition MAX_TEXT_LENGTH :: nat where
  "MAX_TEXT_LENGTH = 10000"

text \<open>
  \<open>handleChange\<close> returns the argument of the \<open>onChange\<close> call it makes, if it makes one.
\<close>

definition handleChange :: "string \<Rightarrow> string option" where
  "handleChange newValue = (if length newValue \<le> MAX_TEXT_LENGTH then Some newValue else None)"

text \<open>
  The parent passes \<open>setText\<close> as \<open>onChange\<close>, so the stored text after a change event is
  the new value when it was accepted and the old text otherwise.
\<close>

definition change_event :: "string \<Rightarrow> string \<Rightarrow> string" where
  "change_event text newValue = (case handleChange newValue of Some v \<Rightarrow> v | None \<Rightarrow> text)"

definition change_events :: "string list \<Rightarrow> string \<Rightarrow> string" where
  "change_events evs text = foldl change_event text evs"

section \<open>File upload (app/components/FileUpload.tsx)\<close>

text \<open>A file, as far as the component reads it: its name and its size in bytes.\<close>

record File =
  file_name :: string
  file_size :: nat

text \<open>
  Modelled from the spec: \<open>SUPPORTED_FILE_TYPES\<close> is imported from \<open>app/lib/constants\<close>,
  which is not among the sources; the documentation names the formats .txt and .docx.
\<close>

definition SUPPORTED_FILE_TYPES :: "string list" where
  "SUPPORTED_FILE_TYPES = [''.txt'', ''.docx'']"

text \<open>
  Modelled from the spec: \<open>MAX_FILE_SIZE_MB\<close> is imported from \<open>app/lib/constants\<close>, which
  is not among the sources; the documentation gives the maximum file size as 5MB.
\<close>

definition MAX_FILE_SIZE_MB :: real where
  "MAX_FILE_SIZE_MB = 5"

text \<open>\<open>name.split('.')\<close>: the pieces between the dots; the result is never empty.\<close>

fun split_dot :: "string \<Rightarrow> string list" where
  "split_dot [] = [[]]"
| "split_dot (c # cs) =
     (if c = CHR ''.'' then [] # split_dot cs
      else (case split_dot cs of [] \<Rightarrow> [[c]] | p # ps \<Rightarrow> (c # p) # ps))"

text \<open>\<open>.pop()\<close> returns the last element, or \<open>undefined\<close> for an empty array.\<close>

definition pop :: "string list \<Rightarrow> string option" where
  "pop xs = (if xs = [] then None else Some (last xs))"

text \<open>
  Lower-casing of a code unit, over the code units the model has (up to \<open>0xFF\<close>): the
  letters A to Z, and the Latin-1 capitals \<open>0xC0\<close> to \<open>0xDE\<close> other than the
  multiplication sign \<open>0xD7\<close>, are moved up by \<open>0x20\<close>.
\<close>

definition lower_char :: "char \<Rightarrow> char" where
  "lower_char c =
     (if ((65::nat) \<le> of_char c \<and> of_char c \<le> (90::nat))
         \<or> ((192::nat) \<le> of_char c \<and> of_char c \<le> (222::nat) \<and> of_char c \<noteq> (215::nat))
      then char_of (of_char c + (32::nat)) else c)"

definition toLowerCase :: "string \<Rightarrow> string" where
  "toLowerCase s = map lower_char s"

text \<open>
  \<open>'.' + file.name.split('.').pop()?.toLowerCase()\<close>; an undefined operand of the
  concatenation is rendered as the text \<open>undefined\<close>.
\<close>

definition extension :: "File \<Rightarrow> string" where
  "extension file =
     ''.'' @ (case pop (split_dot (file_name file)) of
                None \<Rightarrow> ''undefined''
              | Some e \<Rightarrow> toLowerCase e)"

text \<open>
  The two messages of \<open>validateFile\<close>, with the values they interpolate.  The size in
  megabytes is the quotient \<open>file.size / (1024 * 1024)\<close>, which is exact for a division by a
  power of two.
\<close>

datatype validation_error =
  UnsupportedFileType "string list"
| FileTooLarge real

definition validateFile :: "File \<Rightarrow> validation_error option" where
  "validateFile file =
     (if extension file \<notin> set SUPPORTED_FILE_TYPES
      then Some (UnsupportedFileType SUPPORTED_FILE_TYPES)
      else if real (file_size file) / (1024 * 1024) > MAX_FILE_SIZE_MB
      then Some (FileTooLarge MAX_FILE_SIZE_MB)
      else None)"

text \<open>
  The state that \<open>handleFile\<close> touches: the component's own error message (the state
  \<open>error\<close>) and the parent's selected file, which \<open>onFileSelect\<close> sets.
\<close>

record FileUpload =
  upload_error :: "validation_error option"
  selectedFile :: "File option"

definition handleFile :: "File \<Rightarrow> FileUpload \<Rightarrow> FileUpload" where
  "handleFile file u =
     (case validateFile file of
        Some validationError \<Rightarrow> u\<lparr>upload_error := Some validationError\<rparr>
      | None \<Rightarrow> u\<lparr>upload_error := None, selectedFile := Some file\<rparr>)"

section \<open>Home page (app/page.tsx)\<close>

datatype InputMode = TextMode | FileMode

text \<open>The page keeps the mode in a state of type \<open>'bigram' | 'trigram'\<close>.\<close>

datatype HomeNgramMode = HomeBigram | HomeTrigram

text \<open>
  The state of the page that decides what is submitted; the states \<open>isLoading\<close> and
  \<open>error\<close> only drive the display.  The fields \<open>ngramMode\<close>, \<open>text\<close> and \<open>selectedFile\<close>
  carry the prefix \<open>home_\<close>.
\<close>

record Home =
  inputMode :: InputMode
  home_ngramMode :: HomeNgramMode
  home_text :: string
  home_selectedFile :: "File option"

record CheckFileRequest =
  req_file :: File
  file_ngram :: RequestNgram
  file_model_type :: "ModelType option"

text \<open>
  White space as \<open>String.prototype.trim\<close> removes it, over the code units the model has:
  tab, line feed, vertical tab, form feed, carriage return, space and no-break space.
\<close>

definition is_whitespace :: "char \<Rightarrow> bool" where
  "is_whitespace c = ((of_char c :: nat) \<in> {9, 10, 11, 12, 13, 32, 160})"

definition trim :: "string \<Rightarrow> string" where
  "trim s = rev (dropWhile is_whitespace (rev (dropWhile is_whitespace s)))"

definition canSubmit :: "Home \<Rightarrow> bool" where
  "canSubmit h =
     (if inputMode h = TextMode then length (trim (home_text h)) > 0
      else home_selectedFile h \<noteq> None)"

text \<open>A value of the page's mode type, used where the request type is expected.\<close>

fun as_request_ngram :: "HomeNgramMode \<Rightarrow> RequestNgram" where
  "as_request_ngram HomeBigram = ReqBigram"
| "as_request_ngram HomeTrigram = ReqTrigram"

text \<open>The two requests that the page can send.\<close>

datatype api_call = CheckText CheckTextRequest | CheckFile CheckFileRequest

text \<open>
  Modelled from the spec: \<open>checkText\<close> of \<open>app/lib/api\<close> is not among the sources.  The
  engine is invoked with the text and the n-gram mode, so the request carries the two
  arguments as they are passed; the page passes no model type.
\<close>

definition checkText :: "string \<Rightarrow> RequestNgram \<Rightarrow> api_call" where
  "checkText t m = CheckText \<lparr>req_text = t, ngram = m, model_type = None\<rparr>"

text \<open>
  Modelled from the spec: \<open>checkFile\<close> of \<open>app/lib/api\<close> is not among the sources.  The
  request carries the file and the n-gram mode as they are passed, and no model type.
\<close>

definition checkFile :: "File \<Rightarrow> RequestNgram \<Rightarrow> api_call" where
  "checkFile f m = CheckFile \<lparr>req_file = f, file_ngram = m, file_model_type = None\<rparr>"

fun call_ngram :: "api_call \<Rightarrow> RequestNgram" where
  "call_ngram (CheckText r) = ngram r"
| "call_ngram (CheckFile r) = file_ngram r"

text \<open>
  \<open>handleSubmit\<close>, as the request it sends: none when \<open>canSubmit\<close> is false, and none when
  the file mode has no file (the handler throws before any call).
\<close>

definition handleSubmit :: "Home \<Rightarrow> api_call option" where
  "handleSubmit h =
     (if \<not> canSubmit h then None
      else if inputMode h = TextMode
      then Some (checkText (home_text h) (as_request_ngram (home_ngramMode h)))
      else (case home_selectedFile h of
              Some f \<Rightarrow> Some (checkFile f (as_request_ngram (home_ngramMode h)))
            | None \<Rightarrow> None))"

text \<open>The three kinds that the analysis engine produces.\<close>

definition is_engine_kind :: "ErrorType \<Rightarrow> bool" where
  "is_engine_kind t = (t = Spelling \<or> t = Grammar \<or> t = Punctuation)"

section \<open>The analysis engine\<close>

text \<open>
  The engine runs in the backend, which is not among the sources.  Every definition of
  this section is modelled from the specification (sections 3, 4.3, 4.5, 4.7, 4.8, 4.9
  and 7); probabilities and scores are exact real numbers.
\<close>

subsection \<open>Kneser-Ney estimator\<close>

text \<open>
  Modelled from the spec: the n-gram count tables of the absent model builder, a mapping
  from tuples of at most three words to occurrence counts, and its vocabulary.
\<close>

record CountTables =
  ngram_count :: "string list \<Rightarrow> nat"
  vocabulary :: "string list"

text \<open>Modelled from the spec: the discount constant of the absent estimator, \<open>d = 0.75\<close>.\<close>

definition discount :: real where
  "discount = 0.75"

text \<open>
  Modelled from the spec: the number of words of the corpus, the total over which the
  absent estimator takes the relative frequency of a word.
\<close>

definition total_words :: "CountTables \<Rightarrow> nat" where
  "total_words t = sum_list (map (\<lambda>w. ngram_count t [w]) (vocabulary t))"

text \<open>
  Modelled from the spec: \<open>count(c)\<close> of the absent estimator, the count of the context;
  for the empty context (the unigram order) it is the number of words.
\<close>

definition context_count :: "CountTables \<Rightarrow> string list \<Rightarrow> nat" where
  "context_count t c = (if c = [] then total_words t else ngram_count t c)"

text \<open>
  Modelled from the spec: \<open>count(c,w)\<close> of the absent estimator, the count of the context
  followed by the word.
\<close>

definition joint_count :: "CountTables \<Rightarrow> string list \<Rightarrow> string \<Rightarrow> nat" where
  "joint_count t c w = ngram_count t (c @ [w])"

text \<open>
  Modelled from the spec: \<open>distinct_continuations(c)\<close> of the absent estimator, the number
  of distinct words seen after the context.
\<close>

definition distinct_continuations :: "CountTables \<Rightarrow> string list \<Rightarrow> nat" where
  "distinct_continuations t c = length (filter (\<lambda>w. 0 < ngram_count t (c @ [w])) (vocabulary t))"

text \<open>
  Modelled from the spec: \<open>distinct_contexts_preceding(w)\<close> of the absent estimator, the
  number of distinct words seen before the word.
\<close>

definition distinct_contexts_preceding :: "CountTables \<Rightarrow> string \<Rightarrow> nat" where
  "distinct_contexts_preceding t w = length (filter (\<lambda>v. 0 < ngram_count t [v, w]) (vocabulary t))"

text \<open>
  Modelled from the spec: \<open>total_distinct_bigram_types\<close> of the absent estimator, the number
  of distinct pairs of words seen.
\<close>

definition total_distinct_bigram_types :: "CountTables \<Rightarrow> nat" where
  "total_distinct_bigram_types t =
     sum_list (map (\<lambda>v. distinct_continuations t [v]) (vocabulary t))"

text \<open>
  Modelled from the spec: the relative frequency of a word over the vocabulary, to which
  the continuation probability of the absent estimator degenerates at the unigram order.
\<close>

definition relative_frequency :: "CountTables \<Rightarrow> string \<Rightarrow> real" where
  "relative_frequency t w = real (ngram_count t [w]) / real (total_words t)"

text \<open>
  Modelled from the spec: the continuation probability of the absent estimator,
  \<open>distinct_contexts_preceding(w) / total_distinct_bigram_types\<close>, and the relative
  frequency for the unigram order (the empty context).
\<close>

definition P_continuation :: "CountTables \<Rightarrow> string list \<Rightarrow> string \<Rightarrow> real" where
  "P_continuation t c w =
     (if c = [] then relative_frequency t w
      else real (distinct_contexts_preceding t w) / real (total_distinct_bigram_types t))"

text \<open>
  Modelled from the spec: the first term of the absent estimator,
  \<open>max(count(c,w) - d, 0) / count(c)\<close>, present if \<open>count(c) > 0\<close> and 0 for an unseen context.
\<close>

definition discounted_term :: "CountTables \<Rightarrow> string list \<Rightarrow> string \<Rightarrow> real" where
  "discounted_term t c w =
     (if 0 < context_count t c
      then max (real (joint_count t c w) - discount) 0 / real (context_count t c)
      else 0)"

text \<open>
  Modelled from the spec: the weight \<open>\<lambda>(c) = d * distinct_continuations(c) / count(c)\<close> of
  the absent estimator, which defaults to 1 for an unseen context.
\<close>

definition lambda_weight :: "CountTables \<Rightarrow> string list \<Rightarrow> real" where
  "lambda_weight t c =
     (if 0 < context_count t c
      then discount * real (distinct_continuations t c) / real (context_count t c)
      else 1)"

text \<open>
  Modelled from the spec: the smoothed probability of the absent estimator, the first
  term plus \<open>\<lambda>(c) * P_continuation(w)\<close>.
\<close>

definition P_KN :: "CountTables \<Rightarrow> string list \<Rightarrow> string \<Rightarrow> real" where
  "P_KN t c w = discounted_term t c w + lambda_weight t c * P_continuation t c w"

subsection \<open>Correction decision\<close>

text \<open>
  Modelled from the spec: the policy constants of the absent decision engine, the
  probability-ratio threshold and the correction cap.
\<close>

record policy =
  ratio_threshold :: real
  correction_cap :: real

text \<open>Modelled from the spec: the defaults of the absent policy, exactly 2 and 30 percent.\<close>

definition default_policy :: policy where
  "default_policy = \<lparr>ratio_threshold = 2, correction_cap = 0.30\<rparr>"

text \<open>
  Modelled from the spec: what the absent decision engine knows of a word token: whether
  it is in the vocabulary, the best spelling candidate within edit distance 2 (if any),
  the probability of the word in its context and the probability of the best
  substitution candidate.
\<close>

record word_token =
  in_vocabulary :: bool
  spelling_candidate :: "string option"
  P_original :: real
  P_best :: real

text \<open>
  Modelled from the spec: the grammar pass of the absent decision engine.  Words are
  processed left to right with a running count \<open>k\<close> of corrected words; an in-vocabulary
  word is flagged if and only if \<open>P_best > threshold * P_original\<close> and the count, with this
  word, stays at or below \<open>cap * N\<close>, where \<open>N\<close> is the number of words of the sentence.
\<close>

fun grammar_pass :: "policy \<Rightarrow> nat \<Rightarrow> nat \<Rightarrow> word_token list \<Rightarrow> bool list" where
  "grammar_pass pol N k [] = []"
| "grammar_pass pol N k (t # ts) =
     (if in_vocabulary t \<and> P_best t > ratio_threshold pol * P_original t
         \<and> real (k + 1) \<le> correction_cap pol * real N
      then True # grammar_pass pol N (k + 1) ts
      else False # grammar_pass pol N k ts)"

text \<open>
  Modelled from the spec: the grammar flags of a sentence, from the absent decision
  engine: the pass over all its words, starting with the count 0.
\<close>

definition grammar_flags :: "policy \<Rightarrow> word_token list \<Rightarrow> bool list" where
  "grammar_flags pol ts = grammar_pass pol (length ts) 0 ts"

text \<open>
  Modelled from the spec: the spelling pass of the absent spell checker flags a word that
  is not in the vocabulary and has a candidate; it takes no part in the count.
\<close>

definition spelling_flags :: "word_token list \<Rightarrow> bool list" where
  "spelling_flags ts = map (\<lambda>t. \<not> in_vocabulary t \<and> spelling_candidate t \<noteq> None) ts"

text \<open>
  Modelled from the spec: the outcome of the three passes of the absent orchestrator
  over one sentence.
\<close>

record 'p sentence_flags =
  spelling :: "bool list"
  grammar :: "bool list"
  punctuation :: "'p list"

text \<open>
  Modelled from the spec: the three independent passes of the absent orchestrator over
  one sentence; the punctuation pass works on the raw sentence text alone, its errors are
  taken as given.
\<close>

definition analyze_sentence :: "policy \<Rightarrow> word_token list \<Rightarrow> 'p list \<Rightarrow> 'p sentence_flags" where
  "analyze_sentence pol ts punct =
     \<lparr>spelling = spelling_flags ts, grammar = grammar_flags pol ts, punctuation = punct\<rparr>"

subsection \<open>Orchestrator\<close>

text \<open>
  Modelled from the spec: the result of the absent per-sentence analysis, with its errors
  in sentence-local positions.
\<close>

record EngineSentence =
  es_text :: string
  es_errors :: "GrammarError list"
  es_fluency :: real

text \<open>
  Modelled from the spec: the document result of the absent orchestrator, as far as the
  sentences, the global error list and the confidence score go.
\<close>

record EngineResult =
  er_sentences :: "EngineSentence list"
  er_errors :: "GrammarError list"
  er_confidence :: real

text \<open>Modelled from the spec: an input of the absent engine that is empty or only white space.\<close>

definition is_blank :: "string \<Rightarrow> bool" where
  "is_blank t = list_all is_whitespace t"

text \<open>
  Modelled from the spec: the global error list of the absent orchestrator holds the
  errors of every sentence, moved by the length of the sentences before.
\<close>

fun global_errors :: "int \<Rightarrow> EngineSentence list \<Rightarrow> GrammarError list" where
  "global_errors offset [] = []"
| "global_errors offset (s # ss) =
     map (\<lambda>e. e\<lparr>position := \<lparr>start = start (position e) + offset,
                               end' = end' (position e) + offset\<rparr>\<rparr>) (es_errors s)
     @ global_errors (offset + int (length (es_text s))) ss"

text \<open>
  Modelled from the spec: the document confidence of the absent orchestrator is the mean
  of the sentence scores; with no sentence it is undefined and reported as 100.
\<close>

definition document_confidence :: "EngineSentence list \<Rightarrow> real" where
  "document_confidence ss =
     (if ss = [] then 100 else sum_list (map es_fluency ss) / real (length ss))"

text \<open>
  Modelled from the spec: \<open>analyze\<close> of the absent orchestrator.  An empty or
  white-space-only input has no sentence; any other input is segmented and analysed
  sentence by sentence by the components that are taken as the parameter
  \<open>sentence_pass\<close>.
\<close>

definition analyze :: "(string \<Rightarrow> EngineSentence list) \<Rightarrow> string \<Rightarrow> EngineResult" where
  "analyze sentence_pass text =
     (let ss = (if is_blank text then [] else sentence_pass text)
      in \<lparr>er_sentences = ss, er_errors = global_errors 0 ss,
          er_confidence = document_confidence ss\<rparr>)"

section \<open>Notions used to state the properties\<close>

text \<open>
  A store extends another when every object and every array of the first is still
  there, unchanged: nothing that existed has been mutated.
\<close>

definition extends :: "store \<Rightarrow> store \<Rightarrow> bool" where
  "extends s s' =
     (take (length (objs s)) (objs s') = objs s \<and> length (objs s) \<le> length (objs s')
      \<and> take (length (arrs s)) (arrs s') = arrs s \<and> length (arrs s) \<le> length (arrs s'))"

text \<open>
  The characters of a text at the indices \<open>a \<le> i < b\<close>, the length delta of a fix, the
  text that a fix is claimed to produce, and an error as it is claimed to be after a fix
  of \<open>fixed\<close>.
\<close>

definition text_range :: "string \<Rightarrow> int \<Rightarrow> int \<Rightarrow> string" where
  "text_range t a b = drop (nat a) (take (nat b) t)"

definition length_delta :: "GrammarError \<Rightarrow> int" where
  "length_delta e = int (length (suggestion e)) - int (length (original e))"

definition fixed_text :: "string \<Rightarrow> GrammarError \<Rightarrow> string" where
  "fixed_text t e =
     text_range t 0 (start (position e)) @ suggestion e
       @ text_range t (end' (position e)) (int (length t))"

definition shifted :: "GrammarError \<Rightarrow> int \<Rightarrow> GrammarError \<Rightarrow> GrammarError" where
  "shifted fixed delta g =
     (if start (position g) > start (position fixed)
      then g\<lparr>position := \<lparr>start = start (position g) + delta, end' = end' (position g) + delta\<rparr>\<rparr>
      else g)"

text \<open>
  The positions of an error are positions in a text (they refer to the display text)
  when its start and its end lie between 0 and the length of the text.
\<close>

definition in_text :: "string \<Rightarrow> GrammarError \<Rightarrow> bool" where
  "in_text t e =
     (0 \<le> start (position e) \<and> start (position e) \<le> int (length t)
      \<and> 0 \<le> end' (position e) \<and> end' (position e) \<le> int (length t))"

text \<open>
  The error that the callback of \<open>.map\<close> returns for an error \<open>g\<close>, with the sums as the
  program computes them, and the condition under which these sums are exact: the moved
  start and end are integers that a double holds.
\<close>

definition moved :: "GrammarError \<Rightarrow> int \<Rightarrow> GrammarError \<Rightarrow> GrammarError" where
  "moved fixed offset g =
     (if start (position g) > start (position fixed)
      then g\<lparr>position := \<lparr>start = js_add (start (position g)) offset,
                            end' = js_add (end' (position g)) offset\<rparr>\<rparr>
      else g)"

definition exact_shift :: "int \<Rightarrow> GrammarError \<Rightarrow> bool" where
  "exact_shift delta g =
     (\<bar>start (position g) + delta\<bar> \<le> 9007199254740992
      \<and> \<bar>end' (position g) + delta\<bar> \<le> 9007199254740992)"

text \<open>The span of an error, and the conditions on a list of spans.\<close>

definition span :: "store \<Rightarrow> ref \<Rightarrow> int \<times> int" where
  "span s r = (start (position (obj_at s r)), end' (position (obj_at s r)))"

text \<open>Mutually non-overlapping: of any two spans, one ends at or before the start of the other.\<close>

fun non_overlapping :: "(int \<times> int) list \<Rightarrow> bool" where
  "non_overlapping [] = True"
| "non_overlapping (x # xs) =
     (list_all (\<lambda>y. snd x \<le> fst y \<or> snd y \<le> fst x) xs \<and> non_overlapping xs)"

definition within_text :: "string \<Rightarrow> (int \<times> int) list \<Rightarrow> bool" where
  "within_text text spans =
     list_all (\<lambda>x. 0 \<le> fst x \<and> fst x \<le> snd x \<and> snd x \<le> int (length text)) spans"

text \<open>No zero-width span comes, in the list, after a non-empty span with the same start.\<close>

fun empty_spans_first :: "(int \<times> int) list \<Rightarrow> bool" where
  "empty_spans_first [] = True"
| "empty_spans_first (x # xs) =
     (list_all (\<lambda>y. \<not> (fst x < snd x \<and> fst y = fst x \<and> snd y = fst y)) xs
      \<and> empty_spans_first xs)"

text \<open>
  Segments are contiguous from \<open>a\<close> to \<open>b\<close> when the first starts at \<open>a\<close>, each one starts
  where the one before ended, and the last ends at \<open>b\<close>.
\<close>

fun contiguous :: "int \<Rightarrow> TextSegment list \<Rightarrow> int \<Rightarrow> bool" where
  "contiguous a [] b = (a = b)"
| "contiguous a (g # gs) b =
     (seg_start g = a \<and> seg_start g \<le> seg_end g \<and> contiguous (seg_end g) gs b)"

text \<open>The segments that carry an error, in order, each with its error and its bounds.\<close>

fun error_segments :: "TextSegment list \<Rightarrow> (ref \<times> int \<times> int) list" where
  "error_segments [] = []"
| "error_segments (g # gs) =
     (case seg_error g of
        None \<Rightarrow> error_segments gs
      | Some r \<Rightarrow> (r, seg_start g, seg_end g) # error_segments gs)"

definition text_ok :: "string \<Rightarrow> TextSegment \<Rightarrow> bool" where
  "text_ok text g = (seg_text g = text_range text (seg_start g) (seg_end g))"

text \<open>Spans in a row: each starts at or after the end of the one before, from \<open>c\<close> on.\<close>

fun chain :: "int \<Rightarrow> (int \<times> int) list \<Rightarrow> bool" where
  "chain c [] = True"
| "chain c (x # xs) = (c \<le> fst x \<and> fst x \<le> snd x \<and> chain (snd x) xs)"

text \<open>The number of flags raised in a list of flags.\<close>

definition count_flags :: "bool list \<Rightarrow> nat" where
  "count_flags fs = length (filter (\<lambda>f. f) fs)"

text \<open>The part of a file name after its last dot, for a name that has a dot.\<close>

definition filename_extension :: "string \<Rightarrow> string option" where
  "filename_extension n =
     (if CHR ''.'' \<in> set n then Some (rev (takeWhile (\<lambda>c. c \<noteq> CHR ''.'') (rev n))) else None)"

section \<open>Example states\<close>

text \<open>
  A result page for the text \<open>He go to scool\<close> with a grammar error on \<open>go\<close> and a spelling
  error on \<open>scool\<close>; the second array lists the same two errors in the other order.
\<close>

definition ex_store :: store where
  "ex_store =
     \<lparr>objs = [\<lparr>type = Grammar, position = \<lparr>start = 3, end' = 5\<rparr>, original = ''go'',
                suggestion = ''goes'', explanation = ''context'', sentenceIndex = 0\<rparr>,
              \<lparr>type = Spelling, position = \<lparr>start = 9, end' = 14\<rparr>, original = ''scool'',
                suggestion = ''school'', explanation = ''distance 1'', sentenceIndex = 0\<rparr>],
      arrs = [[0, 1], [1, 0]]\<rparr>"

definition ex_result :: AnalysisResult where
  "ex_result =
     \<lparr>originalText = ''He go to scool'', correctedText = ''He goes to school'', errors = 0,
      confidenceScore = 80, sentences = [], ngramMode = Trigram, processingTimeMs = 3\<rparr>"

definition ex_page :: ResultPage where
  "ex_page =
     \<lparr>result = Some ex_result, currentSentenceIndex = 0,
      displayText = ''He go to scool'', displayErrors = 0\<rparr>"


text \<open>Count tables of a corpus of the four words \<open>he goes he go\<close>.\<close>

definition ex_tables :: CountTables where
  "ex_tables =
     \<lparr>ngram_count = (\<lambda>g. if g = [''he''] then 2 else if g = [''goes''] then 1
                          else if g = [''go''] then 1 else if g = [''he'', ''goes''] then 1
                          else if g = [''goes'', ''he''] then 1 else if g = [''he'', ''go''] then 1
                          else 0),
      vocabulary = [''he'', ''goes'', ''go'']\<rparr>"

text \<open>
  A sentence of four in-vocabulary words, each with a candidate that is more than twice
  as probable as the word.
\<close>

definition ex_token :: word_token where
  "ex_token = \<lparr>in_vocabulary = True, spelling_candidate = None,
                P_original = 0.001, P_best = 0.025\<rparr>"

definition ex_tokens :: "word_token list" where
  "ex_tokens = [ex_token, ex_token, ex_token, ex_token]"

section \<open>The kinds of error and of n-gram mode\<close>

lemma ErrorType_UNIV:
  "(UNIV :: ErrorType set) = {Spelling, Grammar, Punctuation, Ngram, Semantic, Structure, Ai}"
proof -
  have "t \<in> {Spelling, Grammar, Punctuation, Ngram, Semantic, Structure, Ai}" for t :: ErrorType
    by (cases t) simp_all
  then show ?thesis by blast
qed

text \<open>
  C7, as the claim states it, fails: a \<open>GrammarError\<close> may carry the kind \<open>semantic\<close>,
  which is none of spelling, grammar and punctuation.
\<close>

theorem ErrorType_three_kinds_counterexample:
  "\<not> is_engine_kind (type \<lparr>type = Semantic, position = \<lparr>start = 0, end' = 4\<rparr>,
      original = ''blue'', suggestion = ''glue'', explanation = ''meaning'', sentenceIndex = 0\<rparr>)"
  by (simp add: is_engine_kind_def)

text \<open>
  C7 (amended): the error-type tag is a closed variant with exactly seven kinds, namely
  spelling, grammar, punctuation, ngram, semantic, structure and ai; every
  \<open>GrammarError\<close> carries exactly one of them, the seven are pairwise different, and the
  three kinds of the analysis engine are among them (they are all the kinds of the
  earlier copy of the type file).
\<close>

theorem ErrorType_seven_kinds:
  "type (e :: GrammarError) \<in> {Spelling, Grammar, Punctuation, Ngram, Semantic, Structure, Ai}
   \<and> distinct [Spelling, Grammar, Punctuation, Ngram, Semantic, Structure, Ai]
   \<and> card (UNIV :: ErrorType set) = 7
   \<and> is_engine_kind Spelling \<and> is_engine_kind Grammar \<and> is_engine_kind Punctuation
   \<and> range as_error_type = {Spelling, Grammar, Punctuation}"
proof -
  have "k \<in> {EarlierSpelling, EarlierGrammar, EarlierPunctuation}" for k :: EarlierErrorType
    by (cases k) simp_all
  then have u: "(UNIV :: EarlierErrorType set) = {EarlierSpelling, EarlierGrammar, EarlierPunctuation}"
    by blast
  have d: "range as_error_type = {Spelling, Grammar, Punctuation}"
    unfolding u by simp
  have "type e \<in> (UNIV :: ErrorType set)" by simp
  then have a: "type e \<in> {Spelling, Grammar, Punctuation, Ngram, Semantic, Structure, Ai}"
    unfolding ErrorType_UNIV .
  have b: "distinct [Spelling, Grammar, Punctuation, Ngram, Semantic, Structure, Ai]"
    by simp
  have c: "card (UNIV :: ErrorType set) = 7"
    unfolding ErrorType_UNIV by simp
  show ?thesis using a b c d by (simp add: is_engine_kind_def)
qed

text \<open>
  C2, as the claim states it, fails: the request interface admits the mode \<open>4gram\<close> and the
  result interface the mode \<open>Transformer-AI\<close>, and neither is bigram or trigram.
\<close>

theorem ngram_mode_counterexample:
  "ngram \<lparr>req_text = ''He go to school.'', ngram = Req4gram, model_type = None\<rparr>
     \<notin> {ReqBigram, ReqTrigram}
   \<and> ngramMode \<lparr>originalText = ''He go to school.'', correctedText = ''He goes to school.'',
        errors = 0, confidenceScore = 80, sentences = [], ngramMode = TransformerAI,
        processingTimeMs = 12\<rparr> \<notin> {Bigram, Trigram}"
  by simp

text \<open>
  C2 (amended): every request that the home page submits (check-text or check-file)
  carries the mode bigram or trigram, because the page's own mode has only these two
  values; the request interface itself has the three modes bigram, trigram and 4gram,
  and the result interface the four modes bigram, trigram, 4gram and Transformer-AI.
\<close>

theorem submitted_ngram_mode:
  "(handleSubmit h = Some call \<longrightarrow> call_ngram call \<in> {ReqBigram, ReqTrigram})
   \<and> (m :: RequestNgram) \<in> {ReqBigram, ReqTrigram, Req4gram}
   \<and> ngramMode (res :: AnalysisResult) \<in> {Bigram, Trigram, FourGram, TransformerAI}"
proof -
  have mode: "as_request_ngram k \<in> {ReqBigram, ReqTrigram}" for k
    by (cases k) simp_all
  have a: "handleSubmit h = Some call \<longrightarrow> call_ngram call \<in> {ReqBigram, ReqTrigram}"
    using mode [of "home_ngramMode h"]
    by (auto simp: handleSubmit_def checkText_def checkFile_def
             split: if_splits option.splits)
  have b: "m \<in> {ReqBigram, ReqTrigram, Req4gram}"
    by (cases m) simp_all
  have c: "ngramMode res \<in> {Bigram, Trigram, FourGram, TransformerAI}"
    by (cases "ngramMode res") simp_all
  show ?thesis using a b c by blast
qed

theorem submitted_ngram_mode_witness:
  "handleSubmit \<lparr>inputMode = TextMode, home_ngramMode = HomeBigram,
        home_text = ''He go.'', home_selectedFile = None\<rparr>
     = Some (CheckText \<lparr>req_text = ''He go.'', ngram = ReqBigram, model_type = None\<rparr>)
   \<and> call_ngram (CheckText \<lparr>req_text = ''He go.'', ngram = ReqBigram, model_type = None\<rparr>)
       \<in> {ReqBigram, ReqTrigram}"
proof -
  have sub: "handleSubmit \<lparr>inputMode = TextMode, home_ngramMode = HomeBigram,
        home_text = ''He go.'', home_selectedFile = None\<rparr>
     = Some (CheckText \<lparr>req_text = ''He go.'', ngram = ReqBigram, model_type = None\<rparr>)"
    by (simp add: handleSubmit_def canSubmit_def trim_def is_whitespace_def checkText_def)
  from submitted_ngram_mode
    [of "\<lparr>inputMode = TextMode, home_ngramMode = HomeBigram,
        home_text = ''He go.'', home_selectedFile = None\<rparr>"
        "CheckText \<lparr>req_text = ''He go.'', ngram = ReqBigram, model_type = None\<rparr>"]
  show ?thesis using sub by blast
qed

section \<open>The length limit of the text input\<close>

lemma change_event_bound:
  "length t \<le> MAX_TEXT_LENGTH \<Longrightarrow> length (change_event t v) \<le> MAX_TEXT_LENGTH"
  by (simp add: change_event_def handleChange_def)

lemma change_events_bound:
  "length t \<le> MAX_TEXT_LENGTH \<Longrightarrow> length (change_events evs t) \<le> MAX_TEXT_LENGTH"
  unfolding change_events_def
  by (induction evs arbitrary: t) (simp_all add: change_event_bound)

text \<open>
  C6: a change event is accepted (\<open>onChange\<close> is called, with the new value) if and only
  if the new value has at most \<open>MAX_TEXT_LENGTH\<close> characters; starting from the empty
  input, the stored text has at most 10,000 characters after any sequence of change
  events.
\<close>

theorem text_input_limit:
  "(handleChange v = Some v) = (length v \<le> MAX_TEXT_LENGTH)
   \<and> (handleChange v = None) = (MAX_TEXT_LENGTH < length v)
   \<and> length (change_events evs []) \<le> 10000"
proof -
  have "length (change_events evs []) \<le> MAX_TEXT_LENGTH"
    by (rule change_events_bound) simp
  then show ?thesis
    by (auto simp: handleChange_def MAX_TEXT_LENGTH_def)
qed

section \<open>Applying fixes on the result page\<close>

lemma extends_refl: "extends s s"
  by (simp add: extends_def)

lemma take_chain:
  assumes "take (length a) b = a" and "take (length b) c = b" and "length a \<le> length b"
  shows "take (length a) c = a"
proof -
  have "take (length a) (take (length b) c) = take (length a) c"
    using assms(3) by (simp add: min_def)
  then show ?thesis using assms(1,2) by metis
qed

lemma extends_trans: "extends s t \<Longrightarrow> extends t u \<Longrightarrow> extends s u"
  unfolding extends_def
  using take_chain [of "objs s" "objs t" "objs u"] take_chain [of "arrs s" "arrs t" "arrs u"]
  by auto

lemma extends_obj_at: "extends s t \<Longrightarrow> r < length (objs s) \<Longrightarrow> obj_at t r = obj_at s r"
  unfolding extends_def obj_at_def by (metis nth_take)

lemma shift_one_props:
  assumes "shift_one error offset e s = (e', t)"
  shows "extends s t" and "arrs t = arrs s"
    and "e < length (objs s) \<Longrightarrow> error < length (objs s) \<Longrightarrow>
         obj_at t e' = moved (obj_at s error) offset (obj_at s e) \<and> e' < length (objs t)
         \<and> (if start (position (obj_at s e)) > start (position (obj_at s error))
             then length (objs s) \<le> e' else e' = e)"
  using assms
  by (auto simp: shift_one_def new_obj_def extends_def obj_at_def moved_def nth_append
           split: if_splits)

lemma shift_each_props:
  assumes "shift_each error offset es s = (es', t)"
  shows "extends s t \<and> arrs t = arrs s"
  using assms
proof (induction es arbitrary: s es' t)
  case Nil
  then show ?case by (simp add: extends_refl)
next
  case (Cons e es)
  obtain e1 s1 where one: "shift_one error offset e s = (e1, s1)" by force
  obtain es1 s2 where rest: "shift_each error offset es s1 = (es1, s2)" by force
  from Cons.prems one rest have t: "t = s2" by simp
  from shift_one_props(1,2)[OF one] Cons.IH[OF rest] t
  show ?case by (auto intro: extends_trans)
qed

lemma shift_each_values:
  assumes "shift_each error offset es s = (es', t)"
    and "list_all (\<lambda>r. r < length (objs s)) es" and "error < length (objs s)"
  shows "map (obj_at t) es' = map (moved (obj_at s error) offset) (map (obj_at s) es)
         \<and> list_all (\<lambda>r. r < length (objs t)) es'
         \<and> list_all2 (\<lambda>r r'. if start (position (obj_at s r)) > start (position (obj_at s error))
               then length (objs s) \<le> r' else r' = r) es es'"
  using assms
proof (induction es arbitrary: s es' t)
  case Nil
  then show ?case by simp
next
  case (Cons e es)
  obtain e1 s1 where one: "shift_one error offset e s = (e1, s1)" by force
  obtain es1 s2 where rest: "shift_each error offset es s1 = (es1, s2)" by force
  from Cons.prems(1) one rest have t: "t = s2" and es': "es' = e1 # es1" by simp_all
  have e: "e < length (objs s)" and es: "list_all (\<lambda>r. r < length (objs s)) es"
    using Cons.prems(2) by simp_all
  note p1 = shift_one_props[OF one]
  have len: "length (objs s) \<le> length (objs s1)" using p1(1) by (simp add: extends_def)
  have es1: "list_all (\<lambda>r. r < length (objs s1)) es"
    using es len by (auto simp: list_all_iff)
  have err1: "error < length (objs s1)" using Cons.prems(3) len by simp
  note ih = Cons.IH[OF rest es1 err1]
  have same: "obj_at s1 r = obj_at s r" if "r < length (objs s)" for r
    using extends_obj_at[OF p1(1) that] .
  have ext2: "extends s1 s2" using shift_each_props[OF rest] by simp
  have head: "obj_at s2 e1 = moved (obj_at s error) offset (obj_at s e)"
    using p1(3)[OF e Cons.prems(3)] extends_obj_at[OF ext2, of e1] by simp
  have maps: "map (obj_at s1) es = map (obj_at s) es"
    using es same by (auto simp: list_all_iff)
  have e1_lt: "e1 < length (objs s2)"
    using p1(3)[OF e Cons.prems(3)] ext2 by (auto simp: extends_def)
  have l2: "list_all2 (\<lambda>r r'. if start (position (obj_at s r)) > start (position (obj_at s error))
               then length (objs s) \<le> r' else r' = r) es es1"
  proof -
    have "list_all2 (\<lambda>r r'. if start (position (obj_at s1 r)) > start (position (obj_at s1 error))
               then length (objs s1) \<le> r' else r' = r) es es1" using ih by simp
    then show ?thesis
      using es same[OF Cons.prems(3)] len
      by (induction es es1 rule: list_all2_induct) (auto simp: same split: if_splits)
  qed
  show ?case
    using ih head maps e1_lt l2 p1(3)[OF e Cons.prems(3)] same[OF Cons.prems(3)]
    by (simp add: t es')
qed

lemma slice_nonneg: "0 \<le> a \<Longrightarrow> slice t 0 a = text_range t 0 a"
  by (auto simp: slice_def slice_index_def text_range_def Let_def min_def)

lemma slice_from_nonneg: "0 \<le> a \<Longrightarrow> slice_from t a = text_range t a (int (length t))"
  by (auto simp: slice_from_def slice_index_def text_range_def Let_def min_def)

lemma handleApplyFix_unfold:
  assumes "result p \<noteq> None"
  obtains es' t where
    "shift_each error (length_delta (obj_at s error))
        (filter (\<lambda>e. e \<noteq> error) (arr_at s (displayErrors p)))
        (s\<lparr>arrs := arrs s @ [filter (\<lambda>e. e \<noteq> error) (arr_at s (displayErrors p))]\<rparr>) = (es', t)"
    and "handleApplyFix error (s, p) =
       (t\<lparr>arrs := arrs t @ [es']\<rparr>,
        p\<lparr>displayText := slice (displayText p) 0 (start (position (obj_at s error)))
               @ suggestion (obj_at s error)
               @ slice_from (displayText p) (end' (position (obj_at s error))),
          displayErrors := length (arrs t)\<rparr>)"
proof -
  let ?f = "filter (\<lambda>e. e \<noteq> error) (arr_at s (displayErrors p))"
  let ?s1 = "s\<lparr>arrs := arrs s @ [?f]\<rparr>"
  obtain es' t where se: "shift_each error (length_delta (obj_at s error)) ?f ?s1 = (es', t)"
    by force
  have at: "arr_at ?s1 (length (arrs s)) = ?f" by (simp add: arr_at_def)
  have "handleApplyFix error (s, p) =
       (t\<lparr>arrs := arrs t @ [es']\<rparr>,
        p\<lparr>displayText := slice (displayText p) 0 (start (position (obj_at s error)))
               @ suggestion (obj_at s error)
               @ slice_from (displayText p) (end' (position (obj_at s error))),
          displayErrors := length (arrs t)\<rparr>)"
    using assms se at
    by (auto simp: handleApplyFix_def array_filter_ne_def array_map_shift_def new_arr_def
                  Let_def length_delta_def)
  with se show ?thesis using that by blast
qed

lemma handleApplyFix_extends: "handleApplyFix error (s, p) = (s', p') \<Longrightarrow> extends s s'"
proof (cases "result p = None")
  case True
  assume "handleApplyFix error (s, p) = (s', p')"
  with True show ?thesis by (simp add: handleApplyFix_def extends_refl)
next
  case False
  assume h: "handleApplyFix error (s, p) = (s', p')"
  from handleApplyFix_unfold[OF False, of error s] obtain es' t where
    se: "shift_each error (length_delta (obj_at s error))
        (filter (\<lambda>e. e \<noteq> error) (arr_at s (displayErrors p)))
        (s\<lparr>arrs := arrs s @ [filter (\<lambda>e. e \<noteq> error) (arr_at s (displayErrors p))]\<rparr>) = (es', t)"
    and eq: "handleApplyFix error (s, p) =
       (t\<lparr>arrs := arrs t @ [es']\<rparr>,
        p\<lparr>displayText := slice (displayText p) 0 (start (position (obj_at s error)))
               @ suggestion (obj_at s error)
               @ slice_from (displayText p) (end' (position (obj_at s error))),
          displayErrors := length (arrs t)\<rparr>)" by blast
  have e1: "extends s (s\<lparr>arrs := arrs s @ [filter (\<lambda>e. e \<noteq> error) (arr_at s (displayErrors p))]\<rparr>)"
    by (simp add: extends_def)
  have e2: "extends (s\<lparr>arrs := arrs s @ [filter (\<lambda>e. e \<noteq> error) (arr_at s (displayErrors p))]\<rparr>) t"
    using shift_each_props[OF se] by simp
  have e3: "extends t (t\<lparr>arrs := arrs t @ [es']\<rparr>)"
    by (simp add: extends_def)
  have "s' = t\<lparr>arrs := arrs t @ [es']\<rparr>" using h eq by simp
  then show ?thesis using e1 e2 e3 by (blast intro: extends_trans)
qed

lemma moved_exact: "exact_shift delta g \<Longrightarrow> moved fixed delta g = shifted fixed delta g"
  by (simp add: moved_def shifted_def exact_shift_def js_add_def round_to_double_def)

lemma length_slice_le: "length (slice t a b) \<le> length t"
  by (auto simp: slice_def Let_def)

text \<open>
  C1: for every display state (text, errors) and every error \<open>e\<close> in the error list whose
  span satisfies \<open>text.slice(e.start, e.end) == e.original\<close>, applying the fix of \<open>e\<close>
  produces the text \<open>text[0, e.start) ++ e.suggestion ++ text[e.end, length)\<close>, removes \<open>e\<close>
  from the error list, moves start and end of every remaining error that starts strictly
  after \<open>e.start\<close> by the length delta \<open>e.suggestion.length - e.original.length\<close> (in a
  fresh copy), and leaves every remaining error that starts at or before \<open>e.start\<close> as it
  is, with unchanged positions.  A display state is a page that shows a text and its
  errors: the result is loaded, the error list holds allocated errors, and the positions
  of the errors are positions in the display text; the text and the suggestion together
  have at most \<open>2^53\<close> characters, so that the moved positions are numbers that the
  program holds exactly.
\<close>

theorem apply_fix_effect:
  assumes wf: "wf_store s" and de: "displayErrors p < length (arrs s)"
    and shown: "shows_results p"
    and positions: "list_all (\<lambda>r. in_text (displayText p) (obj_at s r)) (arr_at s (displayErrors p))"
    and size: "int (length (displayText p)) + int (length (suggestion (obj_at s error)))
                 \<le> 9007199254740992"
    and mem: "error \<in> set (arr_at s (displayErrors p))"
    and span: "slice (displayText p) (start (position (obj_at s error)))
                 (end' (position (obj_at s error))) = original (obj_at s error)"
    and run: "handleApplyFix error (s, p) = (s', p')"
  shows "displayText p' = fixed_text (displayText p) (obj_at s error)
    \<and> error \<notin> set (arr_at s' (displayErrors p'))
    \<and> map (obj_at s') (arr_at s' (displayErrors p'))
        = map (shifted (obj_at s error) (length_delta (obj_at s error)))
            (map (obj_at s) (filter (\<lambda>e. e \<noteq> error) (arr_at s (displayErrors p))))
    \<and> list_all2 (\<lambda>r r'. if start (position (obj_at s r)) > start (position (obj_at s error))
               then length (objs s) \<le> r' else r' = r)
         (filter (\<lambda>e. e \<noteq> error) (arr_at s (displayErrors p))) (arr_at s' (displayErrors p'))"
proof -
  let ?f = "filter (\<lambda>e. e \<noteq> error) (arr_at s (displayErrors p))"
  let ?s1 = "s\<lparr>arrs := arrs s @ [?f]\<rparr>"
  let ?d = "length_delta (obj_at s error)"
  have loaded: "result p \<noteq> None" using shown by (simp add: shows_results_def)
  from handleApplyFix_unfold[OF loaded, of error s] obtain es' t where
    se: "shift_each error ?d ?f ?s1 = (es', t)"
    and eq: "handleApplyFix error (s, p) =
       (t\<lparr>arrs := arrs t @ [es']\<rparr>,
        p\<lparr>displayText := slice (displayText p) 0 (start (position (obj_at s error)))
               @ suggestion (obj_at s error)
               @ slice_from (displayText p) (end' (position (obj_at s error))),
          displayErrors := length (arrs t)\<rparr>)" by blast
  from run eq have s': "s' = t\<lparr>arrs := arrs t @ [es']\<rparr>"
    and p': "p' = p\<lparr>displayText := slice (displayText p) 0 (start (position (obj_at s error)))
               @ suggestion (obj_at s error)
               @ slice_from (displayText p) (end' (position (obj_at s error))),
          displayErrors := length (arrs t)\<rparr>" by simp_all
  have arr: "arr_at s' (displayErrors p') = es'"
    by (simp add: s' p' arr_at_def)
  have all: "list_all (\<lambda>r. r < length (objs s)) (arr_at s (displayErrors p))"
    using wf de unfolding wf_store_def arr_at_def by (simp add: list_all_length)
  then have err: "error < length (objs s)" using mem by (simp add: list_all_iff)
  have fall: "list_all (\<lambda>r. r < length (objs ?s1)) ?f"
    using all by (simp add: list_all_iff)
  have o1: "obj_at ?s1 = obj_at s" by (simp add: obj_at_def fun_eq_iff)
  have err1: "error < length (objs ?s1)" using err by simp
  note sv = shift_each_values[OF se fall err1]
  have nonneg: "0 \<le> start (position (obj_at s error))" "0 \<le> end' (position (obj_at s error))"
    using positions mem by (simp_all add: list_all_iff in_text_def)
  have orig: "int (length (original (obj_at s error))) \<le> int (length (displayText p))"
    using length_slice_le[of "displayText p" "start (position (obj_at s error))"
            "end' (position (obj_at s error))"] span by simp
  have exact: "exact_shift ?d (obj_at s r)" if "r \<in> set ?f" for r
  proof -
    from that positions have "in_text (displayText p) (obj_at s r)"
      by (simp add: list_all_iff)
    then have b: "0 \<le> start (position (obj_at s r))"
        "start (position (obj_at s r)) \<le> int (length (displayText p))"
        "0 \<le> end' (position (obj_at s r))"
        "end' (position (obj_at s r)) \<le> int (length (displayText p))"
      by (simp_all add: in_text_def)
    show ?thesis
      unfolding exact_shift_def length_delta_def abs_le_iff
      using b orig size by linarith
  qed
  have "map (moved (obj_at s error) ?d) (map (obj_at s) ?f)
        = map (shifted (obj_at s error) ?d) (map (obj_at s) ?f)"
    using exact by (simp add: moved_exact)
  then have vals: "map (obj_at t) es' = map (shifted (obj_at s error) ?d) (map (obj_at s) ?f)"
    using sv by (simp add: o1)
  have l2: "list_all2 (\<lambda>r r'. if start (position (obj_at s r)) > start (position (obj_at s error))
               then length (objs s) \<le> r' else r' = r) ?f es'"
    by (rule list_all2_mono[OF conjunct2[OF conjunct2[OF sv]]]) (auto simp: o1 split: if_splits)
  have o2: "obj_at s' = obj_at t" by (simp add: s' obj_at_def fun_eq_iff)
  have dtext: "displayText p' = fixed_text (displayText p) (obj_at s error)"
    using nonneg by (simp add: p' fixed_text_def slice_nonneg slice_from_nonneg)
  have notin: "error \<notin> set es'"
  proof
    assume "error \<in> set es'"
    then obtain i where i: "i < length es'" "es' ! i = error" by (auto simp: in_set_conv_nth)
    from l2 i have li: "i < length ?f" by (simp add: list_all2_lengthD)
    have c: "if start (position (obj_at s (?f ! i))) > start (position (obj_at s error))
       then length (objs s) \<le> error else error = ?f ! i"
      using list_all2_nthD[OF l2 li] i(2) by (auto split: if_splits)
    have "?f ! i \<in> set ?f" using li by (rule nth_mem)
    then have d: "?f ! i \<noteq> error" by simp
    show False
    proof (cases "start (position (obj_at s (?f ! i))) > start (position (obj_at s error))")
      case True
      with c err show False by simp
    next
      case False
      with c d show False by simp
    qed
  qed
  show ?thesis using dtext notin vals l2 by (simp add: arr o2)
qed

theorem apply_fix_effect_witness:
  "wf_store ex_store \<and> displayErrors ex_page < length (arrs ex_store)
   \<and> shows_results ex_page
   \<and> list_all (\<lambda>r. in_text (displayText ex_page) (obj_at ex_store r))
        (arr_at ex_store (displayErrors ex_page))
   \<and> int (length (displayText ex_page)) + int (length (suggestion (obj_at ex_store 0)))
        \<le> 9007199254740992
   \<and> 0 \<in> set (arr_at ex_store (displayErrors ex_page))
   \<and> slice (displayText ex_page) (start (position (obj_at ex_store 0)))
         (end' (position (obj_at ex_store 0))) = original (obj_at ex_store 0)
   \<and> displayText (snd (handleApplyFix 0 (ex_store, ex_page))) = ''He goes to scool''
   \<and> map (obj_at (fst (handleApplyFix 0 (ex_store, ex_page))))
         (arr_at (fst (handleApplyFix 0 (ex_store, ex_page)))
            (displayErrors (snd (handleApplyFix 0 (ex_store, ex_page)))))
       = [\<lparr>type = Spelling, position = \<lparr>start = 11, end' = 16\<rparr>, original = ''scool'',
           suggestion = ''school'', explanation = ''distance 1'', sentenceIndex = 0\<rparr>]"
proof -
  have h1: "wf_store ex_store" by (simp add: wf_store_def ex_store_def)
  have h2: "displayErrors ex_page < length (arrs ex_store)"
    by (simp add: ex_page_def ex_store_def)
  have h3: "shows_results ex_page" by (simp add: shows_results_def ex_page_def)
  have h4: "list_all (\<lambda>r. in_text (displayText ex_page) (obj_at ex_store r))
        (arr_at ex_store (displayErrors ex_page))"
    by (simp add: in_text_def ex_page_def ex_store_def arr_at_def obj_at_def)
  have h5: "int (length (displayText ex_page)) + int (length (suggestion (obj_at ex_store 0)))
        \<le> 9007199254740992"
    by (simp add: ex_page_def ex_store_def obj_at_def)
  have h6: "0 \<in> set (arr_at ex_store (displayErrors ex_page))"
    by (simp add: ex_page_def ex_store_def arr_at_def)
  have h7: "slice (displayText ex_page) (start (position (obj_at ex_store 0)))
         (end' (position (obj_at ex_store 0))) = original (obj_at ex_store 0)"
    by (simp add: ex_page_def ex_store_def obj_at_def slice_def slice_index_def)
  have h8: "handleApplyFix 0 (ex_store, ex_page)
      = (fst (handleApplyFix 0 (ex_store, ex_page)), snd (handleApplyFix 0 (ex_store, ex_page)))"
    by simp
  note concl = apply_fix_effect[OF h1 h2 h3 h4 h5 h6 h7 h8]
  have t: "fixed_text (displayText ex_page) (obj_at ex_store 0) = ''He goes to scool''"
    by (simp add: fixed_text_def text_range_def ex_page_def ex_store_def obj_at_def)
  have v: "map (shifted (obj_at ex_store 0) (length_delta (obj_at ex_store 0)))
            (map (obj_at ex_store) (filter (\<lambda>e. e \<noteq> 0) (arr_at ex_store (displayErrors ex_page))))
       = [\<lparr>type = Spelling, position = \<lparr>start = 11, end' = 16\<rparr>, original = ''scool'',
           suggestion = ''school'', explanation = ''distance 1'', sentenceIndex = 0\<rparr>]"
    by (simp add: shifted_def length_delta_def ex_page_def ex_store_def obj_at_def arr_at_def)
  show ?thesis using h1 h2 h3 h4 h5 h6 h7 concl t v by simp
qed

text \<open>
  Beyond \<open>2^53\<close> the sums are rounded: a start of \<open>2^53 - 1\<close> moved by 2 becomes \<open>2^53\<close>.
\<close>

lemma js_add_rounds:
  "js_add 9007199254740991 2 = 9007199254740992 \<and> js_add 9007199254740992 2 = 9007199254740994
   \<and> js_add 9007199254740994 1 = 9007199254740996"
  by code_simp

lemma handleApplyAllFixes_extends:
  "handleApplyAllFixes (s, p) = (s', p') \<Longrightarrow> extends s s'"
  by (auto simp: handleApplyAllFixes_def new_arr_def extends_def split: option.splits)

lemma handleApplyFix_keeps:
  "handleApplyFix error (s, p) = (s', p') \<Longrightarrow>
     result p' = result p \<and> currentSentenceIndex p' = currentSentenceIndex p"
  by (auto simp: handleApplyFix_def Let_def split: if_splits prod.splits)

lemma handleApplyAllFixes_keeps:
  "handleApplyAllFixes (s, p) = (s', p') \<Longrightarrow>
     result p' = result p \<and> currentSentenceIndex p' = currentSentenceIndex p"
  by (auto simp: handleApplyAllFixes_def Let_def split: option.splits prod.splits)

lemma perform_props:
  "perform a (s, p) = (s', p') \<Longrightarrow>
     extends s s' \<and> result p' = result p \<and> currentSentenceIndex p' = currentSentenceIndex p"
  by (cases a)
     (auto dest: handleApplyFix_extends handleApplyFix_keeps
                 handleApplyAllFixes_extends handleApplyAllFixes_keeps)

lemma perform_all_props:
  "perform_all as (s, p) = (s', p') \<Longrightarrow>
     extends s s' \<and> result p' = result p \<and> currentSentenceIndex p' = currentSentenceIndex p"
proof (induction as arbitrary: s p)
  case Nil
  then show ?case by (simp add: extends_refl)
next
  case (Cons a as)
  obtain s1 p1 where one: "perform a (s, p) = (s1, p1)" by force
  with Cons.prems have rest: "perform_all as (s1, p1) = (s', p')" by simp
  from perform_props[OF one] Cons.IH[OF rest] show ?case
    by (auto intro: extends_trans)
qed

text \<open>
  C3: after the result has been loaded, whatever sequence of individual fixes and of
  Apply All Fixes is performed, every object and every array that existed before is
  still there unchanged (shifted errors and new error lists are fresh allocations), the
  stored result is the same, and Reset brings the page back to the state it had after
  loading: the display text is \<open>result.originalText\<close> and the display error list is the
  array \<open>result.errors\<close>.
\<close>

theorem fixes_preserve_result_and_reset_restores:
  "extends s (fst (perform_all as (s, on_mount res p0)))
   \<and> result (snd (perform_all as (s, on_mount res p0))) = Some res
   \<and> handleReset (perform_all as (s, on_mount res p0))
       = (fst (perform_all as (s, on_mount res p0)), on_mount res p0)
   \<and> displayText (on_mount res p0) = originalText res
   \<and> displayErrors (on_mount res p0) = errors res"
proof -
  obtain s' p' where run: "perform_all as (s, on_mount res p0) = (s', p')" by force
  note pr = perform_all_props[OF run]
  have r: "result p' = Some res" using pr by (simp add: on_mount_def)
  have "p'\<lparr>displayText := originalText res, displayErrors := errors res\<rparr> = on_mount res p0"
    using pr by (simp add: on_mount_def)
  then have "handleReset (s', p') = (s', on_mount res p0)"
    using r by (simp add: handleReset_def)
  then show ?thesis using pr r run by (simp add: on_mount_def)
qed

section \<open>Highlight segmentation\<close>

lemma contiguous_snoc:
  "contiguous a (gs @ [g]) b =
     (contiguous a gs (seg_start g) \<and> seg_start g \<le> seg_end g \<and> seg_end g = b)"
  by (induction gs arbitrary: a) auto

lemma contiguous_sorted:
  "contiguous a gs b \<Longrightarrow> sorted (map seg_start gs) \<and> list_all (\<lambda>g. a \<le> seg_start g) gs \<and> a \<le> b"
proof (induction gs arbitrary: a)
  case Nil
  then show ?case by simp
next
  case (Cons g gs)
  then have c: "contiguous (seg_end g) gs b" and s: "seg_start g = a" "seg_start g \<le> seg_end g"
    by simp_all
  from Cons.IH[OF c] s show ?case by (auto simp: list_all_iff)
qed

lemma error_segments_append:
  "error_segments (gs @ hs) = error_segments gs @ error_segments hs"
  by (induction gs) (auto split: option.splits)

lemma slice_range:
  "0 \<le> a \<Longrightarrow> a \<le> b \<Longrightarrow> b \<le> int (length t) \<Longrightarrow> slice t a b = text_range t a b"
  by (auto simp: slice_def slice_index_def text_range_def Let_def min_def drop_take nat_diff_distrib)

lemma take_text_range:
  "0 \<le> a \<Longrightarrow> a \<le> b \<Longrightarrow> take (nat a) t @ text_range t a b = take (nat b) t"
proof -
  assume "0 \<le> a" "a \<le> b"
  then have "take (nat a) (take (nat b) t) = take (nat a) t" by (simp add: min_def)
  then show ?thesis
    unfolding text_range_def
    by (metis append_take_drop_id)
qed

lemma segment_step_props:
  assumes "0 \<le> cur" and "cur \<le> fst (span s r)" and "fst (span s r) \<le> snd (span s r)"
    and "snd (span s r) \<le> int (length text)"
    and "contiguous 0 res cur" and "concat (map seg_text res) = take (nat cur) text"
    and "list_all (text_ok text) res"
    and "segment_step s text r (res, cur) = (res', cur')"
  shows "contiguous 0 res' cur' \<and> concat (map seg_text res') = take (nat cur') text
         \<and> list_all (text_ok text) res' \<and> cur' = snd (span s r)
         \<and> error_segments res' = error_segments res @ [(r, span s r)]"
proof -
  let ?a = "start (position (obj_at s r))" and ?b = "end' (position (obj_at s r))"
  have ab: "cur \<le> ?a" "?a \<le> ?b" "?b \<le> int (length text)"
    using assms(2,3,4) by (simp_all add: span_def)
  have a0: "0 \<le> ?a" using ab assms(1) by simp
  have s1: "slice text ?a ?b = text_range text ?a ?b"
    using slice_range[OF a0 ab(2) ab(3)] .
  have s2: "slice text cur ?a = text_range text cur ?a"
    using slice_range[OF assms(1) ab(1)] ab by simp
  show ?thesis
  proof (cases "?a > cur")
    case True
    have r': "res' = res @ [\<lparr>seg_text = slice text cur ?a, seg_error = None,
                               seg_start = cur, seg_end = ?a\<rparr>]
                    @ [\<lparr>seg_text = slice text ?a ?b, seg_error = Some r,
                           seg_start = ?a, seg_end = ?b\<rparr>]"
      and c': "cur' = ?b"
      using assms(8) True by (auto simp: segment_step_def Let_def)
    have "concat (map seg_text res')
            = (take (nat cur) text @ text_range text cur ?a) @ text_range text ?a ?b"
      using assms(6) by (simp add: r' s1 s2)
    then have cc: "concat (map seg_text res') = take (nat ?b) text"
      by (simp only: take_text_range[OF assms(1) ab(1)] take_text_range[OF a0 ab(2)])
    let ?g1 = "\<lparr>seg_text = slice text cur ?a, seg_error = None,
                               seg_start = cur, seg_end = ?a\<rparr>"
    let ?g2 = "\<lparr>seg_text = slice text ?a ?b, seg_error = Some r,
                           seg_start = ?a, seg_end = ?b\<rparr>"
    have k1: "contiguous 0 (res @ [?g1]) ?a"
      using assms(5) ab by (simp add: contiguous_snoc)
    have k2: "contiguous 0 ((res @ [?g1]) @ [?g2]) ?b"
      using k1 ab by (simp only: contiguous_snoc) simp
    have t2: "list_all (text_ok text) res'"
      using assms(7) by (simp add: r' s1 s2 text_ok_def)
    have e2: "error_segments res' = error_segments res @ [(r, span s r)]"
      by (simp add: r' error_segments_append span_def)
    show ?thesis
      using k2 cc t2 e2 by (simp add: r' c' span_def)
  next
    case False
    then have eq: "?a = cur" using ab by simp
    have r': "res' = res @ [\<lparr>seg_text = slice text ?a ?b, seg_error = Some r,
                           seg_start = ?a, seg_end = ?b\<rparr>]"
      and c': "cur' = ?b"
      using assms(8) False by (auto simp: segment_step_def Let_def)
    have pre: "concat (map seg_text res) = take (nat ?a) text"
      using assms(6) eq by simp
    have "concat (map seg_text res') = take (nat ?a) text @ text_range text ?a ?b"
      by (simp add: r' s1 pre)
    then have cc: "concat (map seg_text res') = take (nat ?b) text"
      by (simp only: take_text_range[OF a0 ab(2)])
    have k0: "contiguous 0 res ?a" using assms(5) eq by simp
    have k2: "contiguous 0 res' ?b"
      using k0 ab unfolding r' by (simp only: contiguous_snoc) simp
    have t2: "list_all (text_ok text) res'"
      using assms(7) by (simp add: r' s1 text_ok_def)
    have e2: "error_segments res' = error_segments res @ [(r, span s r)]"
      by (simp add: r' error_segments_append span_def)
    show ?thesis
      using k2 cc t2 e2 by (simp add: c' span_def)
  qed
qed

lemma segment_loop_props:
  assumes "chain cur (map (span s) rs)" and "0 \<le> cur"
    and "list_all (\<lambda>x. snd x \<le> int (length text)) (map (span s) rs)"
    and "cur \<le> int (length text)"
    and "contiguous 0 res cur" and "concat (map seg_text res) = take (nat cur) text"
    and "list_all (text_ok text) res"
    and "segment_loop s text rs (res, cur) = (res', cur')"
  shows "contiguous 0 res' cur' \<and> concat (map seg_text res') = take (nat cur') text
         \<and> list_all (text_ok text) res' \<and> 0 \<le> cur' \<and> cur' \<le> int (length text)
         \<and> error_segments res' = error_segments res @ map (\<lambda>r. (r, span s r)) rs"
  using assms
proof (induction rs arbitrary: res cur)
  case Nil
  then show ?case by simp
next
  case (Cons r rs)
  obtain res1 cur1 where step: "segment_step s text r (res, cur) = (res1, cur1)" by force
  with Cons.prems(8) have rest: "segment_loop s text rs (res1, cur1) = (res', cur')" by simp
  from Cons.prems(1) have c: "cur \<le> fst (span s r)" "fst (span s r) \<le> snd (span s r)"
    "chain (snd (span s r)) (map (span s) rs)" by simp_all
  from Cons.prems(3) have b: "snd (span s r) \<le> int (length text)"
    "list_all (\<lambda>x. snd x \<le> int (length text)) (map (span s) rs)" by simp_all
  note st = segment_step_props[OF Cons.prems(2) c(1) c(2) b(1) Cons.prems(5,6,7) step]
  have c1: "cur1 = snd (span s r)" using st by simp
  have nn: "0 \<le> cur1" using c1 c Cons.prems(2) by simp
  have le: "cur1 \<le> int (length text)" using c1 b by simp
  have ch: "chain cur1 (map (span s) rs)" using c1 c by simp
  have st1: "contiguous 0 res1 cur1" and st2: "concat (map seg_text res1) = take (nat cur1) text"
    and st3: "list_all (text_ok text) res1"
    and st4: "error_segments res1 = error_segments res @ [(r, span s r)]"
    using st by blast+
  from Cons.IH[OF ch nn b(2) le st1 st2 st3 rest] st4
  show ?case by simp
qed

lemma map_insort_key:
  "map f (insort_key (\<lambda>x. k (f x)) x xs) = insort_key k (f x) (map f xs)"
  by (induction xs) simp_all

lemma map_sort_key:
  "map f (sort_key (\<lambda>x. k (f x)) xs) = sort_key k (map f xs)"
  by (induction xs) (simp_all add: map_insort_key)

lemma chain_insort:
  assumes "chain c ys" and "c \<le> fst x" and "fst x \<le> snd x"
    and "list_all (\<lambda>y. snd x \<le> fst y \<or> (snd y \<le> fst x \<and> fst y < fst x)) ys"
  shows "chain c (insort_key fst x ys)"
  using assms
proof (induction ys arbitrary: c)
  case Nil
  then show ?case by simp
next
  case (Cons y ys)
  show ?case
  proof (cases "fst x \<le> fst y")
    case True
    with Cons.prems show ?thesis by auto
  next
    case False
    with Cons.prems have sy: "snd y \<le> fst x" by auto
    from Cons.prems have "chain (snd y) ys"
      and "list_all (\<lambda>y. snd x \<le> fst y \<or> (snd y \<le> fst x \<and> fst y < fst x)) ys" by simp_all
    from Cons.IH[OF this(1) sy Cons.prems(3) this(2)] Cons.prems(1) False
    show ?thesis by simp
  qed
qed

lemma chain_sort:
  assumes "non_overlapping xs" and "empty_spans_first xs"
    and "list_all (\<lambda>x. c \<le> fst x \<and> fst x \<le> snd x) xs"
  shows "chain c (sort_key fst xs)"
  using assms
proof (induction xs)
  case Nil
  then show ?case by simp
next
  case (Cons x xs)
  from Cons.prems have ih: "chain c (sort_key fst xs)"
    using Cons.IH by simp
  have ok: "snd x \<le> fst y \<or> (snd y \<le> fst x \<and> fst y < fst x)" if "y \<in> set xs" for y
  proof -
    from Cons.prems(1) that have no: "snd x \<le> fst y \<or> snd y \<le> fst x"
      by (simp add: list_all_iff)
    from Cons.prems(2) that have ef: "\<not> (fst x < snd x \<and> fst y = fst x \<and> snd y = fst y)"
      by (simp add: list_all_iff)
    from Cons.prems(3) that have le: "fst x \<le> snd x" "fst y \<le> snd y"
      by (simp_all add: list_all_iff)
    from no ef le show ?thesis by linarith
  qed
  then have all: "list_all (\<lambda>y. snd x \<le> fst y \<or> (snd y \<le> fst x \<and> fst y < fst x))
                    (sort_key fst xs)"
    by (simp add: list_all_iff)
  from Cons.prems(3) have "c \<le> fst x" "fst x \<le> snd x" by simp_all
  from chain_insort[OF ih this all] show ?case by simp
qed

lemma segments_unfold:
  assumes "errs < length (arrs s)" and "arr_at s errs \<noteq> []"
  shows "segments text errs s =
     (let sorted_refs = sort_key (\<lambda>r. fst (span s r)) (arr_at s errs);
          s2 = s\<lparr>arrs := arrs s @ [sorted_refs]\<rparr>;
          (res, cur) = segment_loop s2 text sorted_refs ([], 0)
      in (if cur < int (length text)
          then res @ [\<lparr>seg_text = slice_from text cur, seg_error = None,
                        seg_start = cur, seg_end = int (length text)\<rparr>]
          else res, s2))"
proof -
  have o: "obj_at (s\<lparr>arrs := a\<rparr>) = obj_at s" for a
    by (simp add: obj_at_def fun_eq_iff)
  have k: "(\<lambda>r. start (position (obj_at s r))) = (\<lambda>r. fst (span s r))"
    by (simp add: span_def)
  show ?thesis
    using assms
    by (simp add: segments_def array_copy_def new_arr_def array_sort_by_start_def
                  arr_at_def Let_def o k split: prod.splits)
qed

text \<open>
  Where no zero-width span comes, in the error list, after a non-empty span with the
  same start, the segmentation tiles the text: for spans that are mutually
  non-overlapping and lie within \<open>[0, text.length]\<close> with start at most end, the segments
  are contiguous from 0 to \<open>text.length\<close>, ordered by ascending start, each segment holds
  the characters of the text between its start and its end, so that the concatenation of
  the segment texts is the display text, and the segments that carry an error are exactly
  the errors in stable order of start, each once, with its own span; the error array given
  to the component is not changed by the sort, which works on a copy.
\<close>

lemma segments_cover_text:
  assumes errs: "errs < length (arrs s)"
    and within: "within_text text (map (span s) (arr_at s errs))"
    and disjoint: "non_overlapping (map (span s) (arr_at s errs))"
    and ties: "empty_spans_first (map (span s) (arr_at s errs))"
    and run: "segments text errs s = (segs, s')"
  shows "contiguous 0 segs (int (length text))
    \<and> sorted (map seg_start segs)
    \<and> concat (map seg_text segs) = text
    \<and> list_all (text_ok text) segs
    \<and> error_segments segs
        = map (\<lambda>r. (r, span s r)) (sort_key (\<lambda>r. fst (span s r)) (arr_at s errs))
    \<and> mset (map fst (error_segments segs)) = mset (arr_at s errs)
    \<and> extends s s' \<and> arr_at s' errs = arr_at s errs"
proof (cases "arr_at s errs = []")
  case True
  with run have segs: "segs = [\<lparr>seg_text = text, seg_error = None, seg_start = 0,
                                seg_end = int (length text)\<rparr>]" and s': "s' = s"
    by (simp_all add: segments_def)
  show ?thesis
    using True by (simp add: segs s' text_ok_def text_range_def extends_refl)
next
  case False
  let ?sorted = "sort_key (\<lambda>r. fst (span s r)) (arr_at s errs)"
  let ?s2 = "s\<lparr>arrs := arrs s @ [?sorted]\<rparr>"
  obtain res cur where loop: "segment_loop ?s2 text ?sorted ([], 0) = (res, cur)" by force
  from run segments_unfold[OF errs False, of "text"] loop
  have segs: "segs = (if cur < int (length text)
          then res @ [\<lparr>seg_text = slice_from text cur, seg_error = None,
                        seg_start = cur, seg_end = int (length text)\<rparr>]
          else res)" and s': "s' = ?s2"
    by (simp_all add: Let_def)
  have sp: "span ?s2 = span s" by (simp add: span_def obj_at_def fun_eq_iff)
  have ms: "map (span s) ?sorted = sort_key fst (map (span s) (arr_at s errs))"
    by (rule map_sort_key)
  have all0: "list_all (\<lambda>x. 0 \<le> fst x \<and> fst x \<le> snd x) (map (span s) (arr_at s errs))"
    using within by (simp add: within_text_def list_all_iff)
  have ch: "chain 0 (map (span ?s2) ?sorted)"
    unfolding sp ms by (rule chain_sort[OF disjoint ties all0])
  have ub: "list_all (\<lambda>x. snd x \<le> int (length text)) (map (span ?s2) ?sorted)"
    unfolding sp using within by (simp add: within_text_def list_all_iff)
  from segment_loop_props[OF ch _ ub _ _ _ _ loop]
  have res: "contiguous 0 res cur" "concat (map seg_text res) = take (nat cur) text"
    "list_all (text_ok text) res" "0 \<le> cur" "cur \<le> int (length text)"
    "error_segments res = map (\<lambda>r. (r, span s r)) ?sorted"
    by (simp_all add: sp)
  have ext: "extends s s'" by (simp add: s' extends_def)
  have same: "arr_at s' errs = arr_at s errs"
    using errs by (simp add: s' arr_at_def nth_append)
  have core: "contiguous 0 segs (int (length text)) \<and> concat (map seg_text segs) = text
      \<and> list_all (text_ok text) segs \<and> error_segments segs = error_segments res"
  proof (cases "cur < int (length text)")
    case True
    have sf: "slice_from text cur = text_range text cur (int (length text))"
      using res(4) by (rule slice_from_nonneg)
    have "take (nat cur) text @ text_range text cur (int (length text)) = text"
      using take_text_range[OF res(4), of "int (length text)" "text"] True by simp
    then show ?thesis
      using True res by (simp add: segs sf contiguous_snoc text_ok_def error_segments_append)
  next
    case False
    with res(5) have "cur = int (length text)" by simp
    then show ?thesis using False res by (simp add: segs)
  qed
  have srt: "sorted (map seg_start segs)"
    using contiguous_sorted core by blast
  have "map fst (error_segments segs) = ?sorted"
    using core res(6) by (simp add: comp_def)
  then have m: "mset (map fst (error_segments segs)) = mset (arr_at s errs)"
    by simp
  show ?thesis using core srt res(6) m ext same by simp
qed

lemma segments_cover_text_example:
  "1 < length (arrs ex_store)
   \<and> within_text ''He go to scool'' (map (span ex_store) (arr_at ex_store 1))
   \<and> non_overlapping (map (span ex_store) (arr_at ex_store 1))
   \<and> empty_spans_first (map (span ex_store) (arr_at ex_store 1))
   \<and> concat (map seg_text (fst (segments ''He go to scool'' 1 ex_store))) = ''He go to scool''
   \<and> error_segments (fst (segments ''He go to scool'' 1 ex_store)) = [(0, 3, 5), (1, 9, 14)]
   \<and> arr_at (snd (segments ''He go to scool'' 1 ex_store)) 1 = [1, 0]"
proof -
  have h1: "1 < length (arrs ex_store)" by (simp add: ex_store_def)
  have h2: "within_text ''He go to scool'' (map (span ex_store) (arr_at ex_store 1))"
    by (simp add: within_text_def span_def ex_store_def arr_at_def obj_at_def)
  have h3: "non_overlapping (map (span ex_store) (arr_at ex_store 1))"
    by (simp add: span_def ex_store_def arr_at_def obj_at_def)
  have h4: "empty_spans_first (map (span ex_store) (arr_at ex_store 1))"
    by (simp add: span_def ex_store_def arr_at_def obj_at_def)
  have h5: "segments ''He go to scool'' 1 ex_store
      = (fst (segments ''He go to scool'' 1 ex_store), snd (segments ''He go to scool'' 1 ex_store))"
    by simp
  note concl = segments_cover_text[OF h1 h2 h3 h4 h5]
  have srt: "map (\<lambda>r. (r, span ex_store r))
               (sort_key (\<lambda>r. fst (span ex_store r)) (arr_at ex_store 1))
             = [(0, 3, 5), (1, 9, 14)]"
    by (simp add: span_def ex_store_def arr_at_def obj_at_def)
  have arr: "arr_at ex_store 1 = [1, 0]" by (simp add: ex_store_def arr_at_def)
  show ?thesis using h1 h2 h3 h4 concl srt arr by simp
qed

text \<open>In particular the segmentation tiles the text when every span is non-empty.\<close>

lemma non_empty_spans_first:
  "list_all (\<lambda>x. fst x < snd x) xs \<Longrightarrow> empty_spans_first xs"
  by (induction xs) (auto simp: list_all_iff)

lemma segments_cover_non_empty:
  assumes "errs < length (arrs s)"
    and "within_text text (map (span s) (arr_at s errs))"
    and "non_overlapping (map (span s) (arr_at s errs))"
    and "list_all (\<lambda>x. fst x < snd x) (map (span s) (arr_at s errs))"
    and "segments text errs s = (segs, s')"
  shows "contiguous 0 segs (int (length text)) \<and> concat (map seg_text segs) = text"
  using segments_cover_text[OF assms(1,2,3) non_empty_spans_first[OF assms(4)] assms(5)]
  by blast


section \<open>File validation\<close>

lemma validateFile_None_iff:
  "(validateFile f = None) =
     (extension f \<in> set SUPPORTED_FILE_TYPES
      \<and> real (file_size f) / (1024 * 1024) \<le> MAX_FILE_SIZE_MB)"
  by (auto simp: validateFile_def)

lemma handleFile_effect:
  "(validateFile f = None \<longrightarrow>
      handleFile f u = u\<lparr>upload_error := None, selectedFile := Some f\<rparr>)
   \<and> (validateFile f \<noteq> None \<longrightarrow>
      upload_error (handleFile f u) \<noteq> None \<and> selectedFile (handleFile f u) = selectedFile u)"
  by (auto simp: handleFile_def split: option.splits)

text \<open>For a name that has a dot, the extension that the code computes is the real one.\<close>

lemma split_dot_nonempty: "split_dot n \<noteq> []"
  by (induction n) (auto split: list.splits)

lemma split_dot_no_dot: "CHR ''.'' \<notin> set n \<Longrightarrow> split_dot n = [n]"
  by (induction n) auto

lemma split_dot_dot: "CHR ''.'' \<in> set n \<Longrightarrow> 2 \<le> length (split_dot n)"
proof (induction n)
  case Nil
  then show ?case by simp
next
  case (Cons c cs)
  show ?case
  proof (cases "c = CHR ''.''")
    case True
    then show ?thesis using split_dot_nonempty[of cs] by (cases "split_dot cs") auto
  next
    case False
    with Cons show ?thesis by (auto split: list.splits)
  qed
qed

lemma last_split_dot:
  "last (split_dot n) = rev (takeWhile (\<lambda>c. c \<noteq> CHR ''.'') (rev n))"
proof (induction n)
  case Nil
  then show ?case by simp
next
  case (Cons c cs)
  show ?case
  proof (cases "CHR ''.'' \<in> set cs")
    case True
    then have tw: "takeWhile (\<lambda>c. c \<noteq> CHR ''.'') (rev cs @ [c])
                   = takeWhile (\<lambda>c. c \<noteq> CHR ''.'') (rev cs)"
      by (intro takeWhile_append1[of "CHR ''.''"]) auto
    from split_dot_dot[OF True] obtain p q ps where sp: "split_dot cs = p # q # ps"
      by (cases "split_dot cs"; cases "tl (split_dot cs)") auto
    show ?thesis using Cons.IH tw sp by simp
  next
    case False
    then have tw: "takeWhile (\<lambda>c. c \<noteq> CHR ''.'') (rev cs @ [c])
                   = rev cs @ takeWhile (\<lambda>c. c \<noteq> CHR ''.'') [c]"
      by (intro takeWhile_append2) auto
    show ?thesis using split_dot_no_dot[OF False] tw by simp
  qed
qed

lemma extension_dotted:
  "filename_extension (file_name f) = Some e \<Longrightarrow> extension f = ''.'' @ toLowerCase e"
  using last_split_dot[of "file_name f"] split_dot_nonempty[of "file_name f"]
  by (auto simp: filename_extension_def extension_def pop_def split: if_splits)

lemma validateFile_dotted:
  "filename_extension (file_name f) = Some e \<Longrightarrow>
     (validateFile f = None) =
       (''.'' @ toLowerCase e \<in> set SUPPORTED_FILE_TYPES
        \<and> real (file_size f) / (1024 * 1024) \<le> MAX_FILE_SIZE_MB)"
  by (auto simp: validateFile_def extension_dotted)

text \<open>
  C10: a file is propagated to the selection callback, with the error message cleared, if
  and only if its lower-cased filename extension is a supported type and its size is
  within the limit.  The code takes the text after the last dot of the name and, for a
  name without a dot, the whole name: a file named \<open>docx\<close> has no extension, yet its
  computed extension is \<open>.docx\<close>, validation passes and the file is selected.
\<close>

theorem dotless_name_accepted:
  "filename_extension (file_name \<lparr>file_name = ''docx'', file_size = 2048\<rparr>) = None
   \<and> extension \<lparr>file_name = ''docx'', file_size = 2048\<rparr> = ''.docx''
   \<and> validateFile \<lparr>file_name = ''docx'', file_size = 2048\<rparr> = None
   \<and> handleFile \<lparr>file_name = ''docx'', file_size = 2048\<rparr> \<lparr>upload_error = None, selectedFile = None\<rparr>
       = \<lparr>upload_error = None, selectedFile = Some \<lparr>file_name = ''docx'', file_size = 2048\<rparr>\<rparr>"
  by (simp add: filename_extension_def extension_def pop_def toLowerCase_def lower_char_def
        validateFile_def handleFile_def SUPPORTED_FILE_TYPES_def MAX_FILE_SIZE_MB_def)

section \<open>The correction cap\<close>

lemma cap_floor: "nat \<lfloor>0.30 * real N\<rfloor> = (3 * N) div 10"
proof -
  have "0.30 * real N = real (3 * N) / real 10" by simp
  then have "\<lfloor>0.30 * real N\<rfloor> = \<lfloor>real (3 * N) / real 10\<rfloor>" by simp
  also have "\<dots> = int ((3 * N) div 10)" by (rule floor_divide_of_nat_eq)
  finally show ?thesis by simp
qed

lemma grammar_pass_bound:
  "count_flags (grammar_pass pol N k ts) + k \<le> max k (nat \<lfloor>correction_cap pol * real N\<rfloor>)"
proof (induction ts arbitrary: k)
  case Nil
  then show ?case by (simp add: count_flags_def)
next
  case (Cons t ts)
  show ?case
  proof (cases "in_vocabulary t \<and> P_best t > ratio_threshold pol * P_original t
         \<and> real (k + 1) \<le> correction_cap pol * real N")
    case True
    then have "k + 1 \<le> nat \<lfloor>correction_cap pol * real N\<rfloor>"
      using le_nat_floor by blast
    with Cons.IH[of "k + 1"] True show ?thesis
      by (simp add: count_flags_def)
  next
    case False
    with Cons.IH[of k] show ?thesis by (auto simp: count_flags_def)
  qed
qed

lemma grammar_pass_capped:
  "nat \<lfloor>correction_cap pol * real N\<rfloor> \<le> k \<Longrightarrow>
     grammar_pass pol N k ts = replicate (length ts) False"
proof (induction ts)
  case Nil
  then show ?case by simp
next
  case (Cons t ts)
  have "\<not> real (k + 1) \<le> correction_cap pol * real N"
  proof
    assume "real (k + 1) \<le> correction_cap pol * real N"
    then have "k + 1 \<le> nat \<lfloor>correction_cap pol * real N\<rfloor>" by (rule le_nat_floor)
    with Cons.prems show False by simp
  qed
  with Cons show ?case by simp
qed

text \<open>
  C4: in a sentence of \<open>N\<close> word tokens the grammar pass raises at most
  \<open>floor(0.30 * N)\<close> grammar flags, whatever the probabilities of the candidates are; once
  the running count has reached that number, no later word of the sentence is flagged;
  the spelling flags and the punctuation errors of the sentence do not depend on the
  count or on the policy.
\<close>

theorem grammar_correction_cap:
  "count_flags (grammar (analyze_sentence default_policy ts punct))
     \<le> nat \<lfloor>0.30 * real (length ts)\<rfloor>
   \<and> (nat \<lfloor>0.30 * real N\<rfloor> \<le> k \<longrightarrow>
        grammar_pass default_policy N k rest = replicate (length rest) False)
   \<and> spelling (analyze_sentence pol ts punct) = spelling_flags ts
   \<and> punctuation (analyze_sentence pol ts punct) = punct"
proof -
  have a: "count_flags (grammar_flags default_policy ts) \<le> nat \<lfloor>0.30 * real (length ts)\<rfloor>"
    using grammar_pass_bound[of default_policy "length ts" 0 ts]
    by (simp add: grammar_flags_def default_policy_def)
  have b: "nat \<lfloor>0.30 * real N\<rfloor> \<le> k \<longrightarrow>
        grammar_pass default_policy N k rest = replicate (length rest) False"
    using grammar_pass_capped[of default_policy N k rest]
    by (simp add: default_policy_def)
  show ?thesis using a b by (simp add: analyze_sentence_def)
qed

theorem grammar_correction_cap_witness:
  "grammar_flags default_policy ex_tokens = [True, False, False, False]
   \<and> count_flags (grammar (analyze_sentence default_policy ex_tokens ([] :: string list))) \<le> 1
   \<and> nat \<lfloor>0.30 * real (4::nat)\<rfloor> \<le> 1
   \<and> grammar_pass default_policy 4 1 (tl ex_tokens) = replicate (length (tl ex_tokens)) False"
proof -
  have f: "nat \<lfloor>0.30 * real (4::nat)\<rfloor> = 1" by (simp add: cap_floor)
  have l: "length ex_tokens = 4" by (simp add: ex_tokens_def)
  have g: "grammar_flags default_policy ex_tokens = [True, False, False, False]"
    by (simp add: grammar_flags_def ex_tokens_def ex_token_def default_policy_def)
  note c = grammar_correction_cap[of ex_tokens "[] :: string list" 4 1 "tl ex_tokens" default_policy]
  have c1: "count_flags (grammar (analyze_sentence default_policy ex_tokens ([] :: string list))) \<le> 1"
    using c l f by simp
  have f': "nat \<lfloor>0.30 * real (4::nat)\<rfloor> \<le> 1" using f by simp
  have c2: "grammar_pass default_policy 4 1 (tl ex_tokens) = replicate (length (tl ex_tokens)) False"
    using c f' by blast
  show ?thesis using g c1 f' c2 by blast
qed

section \<open>The smoothed probability\<close>

text \<open>
  C5: for every context \<open>c\<close> (of any order) and every word \<open>w\<close>, when \<open>count(c) > 0\<close> the
  smoothed probability is
  \<open>max(count(c,w) - d, 0) / count(c) + \<lambda>(c) * P_continuation(w)\<close> with
  \<open>\<lambda>(c) = d * distinct_continuations(c) / count(c)\<close> and \<open>d = 0.75\<close>; when \<open>count(c) = 0\<close> the
  first term is 0 and \<open>\<lambda>(c) = 1\<close>, so the smoothed probability is \<open>P_continuation(w)\<close>; for
  the unigram order the continuation probability is the relative frequency of the word.
\<close>

theorem kneser_ney_formula:
  "(0 < context_count t c \<longrightarrow>
      P_KN t c w = max (real (joint_count t c w) - 0.75) 0 / real (context_count t c)
                    + (0.75 * real (distinct_continuations t c) / real (context_count t c))
                      * P_continuation t c w)
   \<and> (context_count t c = 0 \<longrightarrow>
      discounted_term t c w = 0 \<and> lambda_weight t c = 1 \<and> P_KN t c w = P_continuation t c w)
   \<and> P_continuation t [] w = real (ngram_count t [w]) / real (total_words t)
   \<and> discount = 0.75"
  by (simp add: P_KN_def discounted_term_def lambda_weight_def discount_def
        P_continuation_def relative_frequency_def)

theorem kneser_ney_formula_witness:
  "0 < context_count ex_tables [''he'']
   \<and> P_KN ex_tables [''he''] ''goes'' = 3 / 8
   \<and> context_count ex_tables [''go'', ''go''] = 0
   \<and> P_KN ex_tables [''go'', ''go''] ''he'' = P_continuation ex_tables [''go'', ''go''] ''he''
   \<and> P_continuation ex_tables [''go'', ''go''] ''he'' = 1 / 3"
proof -
  have c1: "context_count ex_tables [''he''] = 2"
    by (simp add: context_count_def ex_tables_def)
  have j1: "joint_count ex_tables [''he''] ''goes'' = 1"
    by (simp add: joint_count_def ex_tables_def)
  have d1: "distinct_continuations ex_tables [''he''] = 2"
    by (simp add: distinct_continuations_def ex_tables_def)
  have b: "total_distinct_bigram_types ex_tables = 3"
    by (simp add: total_distinct_bigram_types_def distinct_continuations_def ex_tables_def)
  have p1: "P_continuation ex_tables [''he''] ''goes'' = 1 / 3"
    by (simp add: P_continuation_def distinct_contexts_preceding_def b) (simp add: ex_tables_def)
  have p2: "P_continuation ex_tables [''go'', ''go''] ''he'' = 1 / 3"
    by (simp add: P_continuation_def distinct_contexts_preceding_def b) (simp add: ex_tables_def)
  have c2: "context_count ex_tables [''go'', ''go''] = 0"
    by (simp add: context_count_def ex_tables_def)
  have k1: "P_KN ex_tables [''he''] ''goes'' = 3 / 8"
    using kneser_ney_formula[of ex_tables "[''he'']" "''goes''"] c1 j1 d1 p1 by simp
  have k2: "P_KN ex_tables [''go'', ''go''] ''he'' = P_continuation ex_tables [''go'', ''go''] ''he''"
    using kneser_ney_formula[of ex_tables "[''go'', ''go'']" "''he''"] c2 by blast
  show ?thesis using c1 k1 c2 k2 p2 by simp
qed

section \<open>Empty and white-space-only input\<close>

lemma blank_trim: "is_blank t \<Longrightarrow> trim t = []"
proof -
  assume "is_blank t"
  then have d: "dropWhile is_whitespace t = []"
    by (simp add: is_blank_def list_all_iff)
  show ?thesis unfolding trim_def d by simp
qed

text \<open>In the text mode the home page sends no request for such a text.\<close>

lemma blank_text_not_submitted:
  "inputMode h = TextMode \<Longrightarrow> is_blank (home_text h) \<Longrightarrow> handleSubmit h = None"
  by (simp add: handleSubmit_def canSubmit_def blank_trim)

text \<open>
  C8: for every input text that is empty or consists only of white space, the analysis
  yields zero sentences, zero errors and the confidence score 100.
\<close>

theorem blank_input_analysis:
  "is_blank t \<longrightarrow>
     er_sentences (analyze sentence_pass t) = []
     \<and> er_errors (analyze sentence_pass t) = []
     \<and> er_confidence (analyze sentence_pass t) = 100"
  by (simp add: analyze_def document_confidence_def)

theorem blank_input_analysis_witness:
  "is_blank [CHR '' '', CHR 0x0A, CHR 0x09]
   \<and> er_sentences (analyze (\<lambda>t. [\<lparr>es_text = t, es_errors = [], es_fluency = 50\<rparr>])
        [CHR '' '', CHR 0x0A, CHR 0x09]) = []
   \<and> er_errors (analyze (\<lambda>t. [\<lparr>es_text = t, es_errors = [], es_fluency = 50\<rparr>])
        [CHR '' '', CHR 0x0A, CHR 0x09]) = []
   \<and> er_confidence (analyze (\<lambda>t. [\<lparr>es_text = t, es_errors = [], es_fluency = 50\<rparr>])
        [CHR '' '', CHR 0x0A, CHR 0x09]) = 100
   \<and> is_blank []
   \<and> er_confidence (analyze (\<lambda>t. [\<lparr>es_text = t, es_errors = [], es_fluency = 50\<rparr>]) []) = 100"
proof -
  have b: "is_blank [CHR '' '', CHR 0x0A, CHR 0x09]"
    by (simp add: is_blank_def is_whitespace_def)
  have e: "is_blank []" by (simp add: is_blank_def)
  from blank_input_analysis[of "[CHR '' '', CHR 0x0A, CHR 0x09]"
         "\<lambda>t. [\<lparr>es_text = t, es_errors = [], es_fluency = 50\<rparr>]"]
       blank_input_analysis[of "[]" "\<lambda>t. [\<lparr>es_text = t, es_errors = [], es_fluency = 50\<rparr>]"]
  show ?thesis using b e by blast
qed

end
